theory Spec2Isabelle
  imports Main "HOL-Library.Sublist"
begin

section \<open>Python strings\<close>

text \<open>
  A Python \<open>str\<close> is modelled as the list of its code points, for text whose code points
  are below 256: the character \<open>c\<close> stands for the code point \<open>of_char c\<close>, and
  \<open>length\<close> is Python's \<open>len\<close>. The functions below are \<open>str.isspace\<close>,
  \<open>str.lower\<close>, \<open>str.strip\<close>, \<open>str.split\<close> (no argument), \<open>str.join\<close>,
  \<open>str.startswith\<close>, the operator \<open>in\<close> on strings and \<open>str\<close> of a non-negative
  integer, on that range of code points.
\<close>

definition isspace :: "char \<Rightarrow> bool" where
  "isspace c = ((of_char c :: nat) \<in> set [9, 10, 11, 12, 13, 28, 29, 30, 31, 32, 133, 160])"

definition lower_char :: "char \<Rightarrow> char" where
  "lower_char c =
     (let n = (of_char c :: nat)
      in if (65 \<le> n \<and> n \<le> 90) \<or> (192 \<le> n \<and> n \<le> 222 \<and> n \<noteq> 215)
         then char_of (n + 32) else c)"

definition lower :: "string \<Rightarrow> string" where
  "lower s = map lower_char s"

definition strip :: "string \<Rightarrow> string" where
  "strip s = rev (dropWhile isspace (rev (dropWhile isspace s)))"

text \<open>\<open>split_ws cur s\<close> scans \<open>s\<close> with the word read so far in \<open>cur\<close> (reversed).\<close>

fun split_ws :: "string \<Rightarrow> string \<Rightarrow> string list" where
  "split_ws cur [] = (if cur = [] then [] else [rev cur])"
| "split_ws cur (c # cs) =
     (if isspace c
      then (if cur = [] then split_ws [] cs else rev cur # split_ws [] cs)
      else split_ws (c # cur) cs)"

definition split :: "string \<Rightarrow> string list" where
  "split s = split_ws [] s"

fun join :: "string \<Rightarrow> string list \<Rightarrow> string" where
  "join sep [] = []"
| "join sep [x] = x"
| "join sep (x # y # ys) = x @ sep @ join sep (y # ys)"

fun startswith :: "string \<Rightarrow> string \<Rightarrow> bool" where
  "startswith s [] = True"
| "startswith [] (p # ps) = False"
| "startswith (c # cs) (p # ps) = (c = p \<and> startswith cs ps)"

text \<open>\<open>contains s p\<close> is Python's \<open>p in s\<close>.\<close>

fun contains :: "string \<Rightarrow> string \<Rightarrow> bool" where
  "contains [] p = (p = [])"
| "contains (c # cs) p = (startswith (c # cs) p \<or> contains cs p)"

fun show_nat :: "nat \<Rightarrow> string" where
  "show_nat n =
     (if n < 10 then [''0123456789'' ! n]
      else show_nat (n div 10) @ [''0123456789'' ! (n mod 10)])"

declare show_nat.simps [simp del]

section \<open>Floating point: the progress percentage\<close>

text \<open>
  The progress value is \<open>int((i + 1) / total_sources * 100)\<close>: a true division of two
  integers, correctly rounded to a double, a multiplication of doubles, rounded again, and
  a truncation. A positive double is kept as a mantissa \<open>m\<close> and an exponent \<open>e\<close>,
  meaning \<open>m * 2 ^ e\<close>; \<open>fl a b\<close> is the double nearest to \<open>a / b\<close> (ties to even).
  Overflow and subnormal numbers do not occur for the quotients of list positions.
\<close>

fun bit_length :: "nat \<Rightarrow> nat" where
  "bit_length n = (if n = 0 then 0 else Suc (bit_length (n div 2)))"

declare bit_length.simps [simp del]

definition rne :: "nat \<Rightarrow> nat \<Rightarrow> nat" where
  "rne a b =
     (let q = a div b; r = a mod b
      in if 2 * r < b then q
         else if b < 2 * r then q + 1
         else if even q then q else q + 1)"

definition floor_log2 :: "nat \<Rightarrow> nat \<Rightarrow> int" where
  "floor_log2 a b =
     (let d = int (bit_length a) - int (bit_length b)
      in if (if 0 \<le> d then b * 2 ^ nat d \<le> a else b \<le> a * 2 ^ nat (- d))
         then d else d - 1)"

definition fl :: "nat \<Rightarrow> nat \<Rightarrow> nat \<times> int" where
  "fl a b =
     (if a = 0 then (0, 0)
      else let e = floor_log2 a b - 52
           in if 0 \<le> e then (rne a (b * 2 ^ nat e), e)
              else (rne (a * 2 ^ nat (- e)) b, e))"

definition percent :: "nat \<Rightarrow> nat \<Rightarrow> int" where
  "percent k n =
     (let (m1, e1) = fl k n;
          (m2, e2) = (if 0 \<le> e1 then fl (m1 * 100 * 2 ^ nat e1) 1
                      else fl (m1 * 100) (2 ^ nat (- e1)))
      in if 0 \<le> e2 then int (m2 * 2 ^ nat e2) else int (m2 div 2 ^ nat (- e2)))"

section \<open>Parsed markup\<close>

text \<open>
  A BeautifulSoup \<open>Tag\<close>: its name, its attribute dictionary and its contents, where a
  child is a text string (\<open>Inl\<close>) or a nested tag (\<open>Inr\<close>). Only the strings that
  \<open>get_text()\<close> reports are kept (no comments). \<open>descendants\<close> lists the nested tags in
  document order, which is the order in which \<open>find\<close> searches.
\<close>

datatype tag = Tag string "(string \<times> string) list" "(string + tag) list"

fun tag_name :: "tag \<Rightarrow> string" where
  "tag_name (Tag n a cs) = n"

fun get :: "tag \<Rightarrow> string \<Rightarrow> string option" where
  "get (Tag n a cs) key = map_of a key"

fun get_text :: "tag \<Rightarrow> string" where
  "get_text (Tag n a cs) = concat (map (\<lambda>c. case c of Inl s \<Rightarrow> s | Inr t \<Rightarrow> get_text t) cs)"

fun descendants :: "tag \<Rightarrow> tag list" where
  "descendants (Tag n a cs) =
     concat (map (\<lambda>c. case c of Inl s \<Rightarrow> [] | Inr t \<Rightarrow> t # descendants t) cs)"

definition find_tag :: "tag \<Rightarrow> string list \<Rightarrow> tag option" where
  "find_tag element names = List.find (\<lambda>t. tag_name t \<in> set names) (descendants element)"

section \<open>Sources, headlines, responses and exceptions\<close>

record news_source =
  name :: string
  url :: string
  selectors :: "string list"

record headline =
  title :: string
  url :: string
  source :: string
  timestamp :: string

text \<open>
  An exception is a \<open>requests.exceptions.RequestException\<close> (any subclass: a timeout,
  a connection error, an HTTP error) or another \<open>Exception\<close>; the string is \<open>str(e)\<close>.
\<close>

datatype exn = RequestException string | Exception string

record response =
  status_code :: nat
  reason :: string
  response_url :: string
  content :: string

text \<open>The truth value of a \<open>requests.Response\<close> is its \<open>ok\<close> property.\<close>

definition ok :: "response \<Rightarrow> bool" where
  "ok r = (\<not> (400 \<le> status_code r \<and> status_code r < 600))"

definition raise_for_status :: "response \<Rightarrow> exn option" where
  "raise_for_status r =
     (if 400 \<le> status_code r \<and> status_code r < 500
      then Some (RequestException (show_nat (status_code r) @ '' Client Error: '' @ reason r
                   @ '' for url: '' @ response_url r))
      else if 500 \<le> status_code r \<and> status_code r < 600
      then Some (RequestException (show_nat (status_code r) @ '' Server Error: '' @ reason r
                   @ '' for url: '' @ response_url r))
      else None)"

record session =
  session_id :: nat
  headers :: "(string \<times> string) list"

section \<open>The library function \<open>urllib.parse.urljoin\<close>\<close>

text \<open>
  The environment below takes \<open>urljoin\<close> as a parameter. For the concrete runs of this
  theory, \<open>py_urljoin\<close> follows the code of CPython's \<open>urllib.parse\<close> (\<open>urlsplit\<close>,
  \<open>urlparse\<close>, \<open>urlunsplit\<close>, \<open>urlunparse\<close>, \<open>urljoin\<close>) on strings. Its first
  argument stands for \<open>_check_bracketed_host\<close>, the validation of a bracketed host by the
  \<open>ipaddress\<close> module, which is not modelled: it returns the message of the
  \<open>ValueError\<close> it raises, if any. \<open>Inl\<close> is the message of a \<open>ValueError\<close>.
\<close>

definition uses_relative :: "string list" where
  "uses_relative = ['''', ''ftp'', ''http'', ''gopher'', ''nntp'', ''imap'',
     ''wais'', ''file'', ''https'', ''shttp'', ''mms'',
     ''prospero'', ''rtsp'', ''rtsps'', ''rtspu'', ''sftp'',
     ''svn'', ''svn+ssh'', ''ws'', ''wss'']"

definition uses_netloc :: "string list" where
  "uses_netloc = ['''', ''ftp'', ''http'', ''gopher'', ''nntp'', ''telnet'',
     ''imap'', ''wais'', ''file'', ''mms'', ''https'', ''shttp'',
     ''snews'', ''prospero'', ''rtsp'', ''rtsps'', ''rtspu'', ''rsync'',
     ''svn'', ''svn+ssh'', ''sftp'', ''nfs'', ''git'', ''git+ssh'',
     ''ws'', ''wss'']"

definition uses_params :: "string list" where
  "uses_params = ['''', ''ftp'', ''hdl'', ''prospero'', ''http'', ''imap'',
     ''https'', ''shttp'', ''rtsp'', ''rtsps'', ''rtspu'', ''sip'',
     ''sips'', ''mms'', ''sftp'', ''tel'']"

definition ascii_alpha :: "char \<Rightarrow> bool" where
  "ascii_alpha c =
     (let n = (of_char c :: nat) in (65 \<le> n \<and> n \<le> 90) \<or> (97 \<le> n \<and> n \<le> 122))"

definition scheme_char :: "char \<Rightarrow> bool" where
  "scheme_char c =
     (let n = (of_char c :: nat)
      in ascii_alpha c \<or> (48 \<le> n \<and> n \<le> 57) \<or> c \<in> set ''+-.'')"

text \<open>\<open>partition_at c s\<close> is \<open>s.split(c, 1)\<close> for a string that contains \<open>c\<close>.\<close>

definition partition_at :: "char \<Rightarrow> string \<Rightarrow> string \<times> string" where
  "partition_at c s = (takeWhile (\<lambda>x. x \<noteq> c) s, drop 1 (dropWhile (\<lambda>x. x \<noteq> c) s))"

text \<open>\<open>split_on c s\<close> is \<open>s.split(c)\<close>.\<close>

fun split_on :: "char \<Rightarrow> string \<Rightarrow> string list" where
  "split_on c [] = [[]]"
| "split_on c (x # xs) =
     (case split_on c xs of
        [] \<Rightarrow> (if x = c then [[], []] else [[x]])
      | seg # segs \<Rightarrow> (if x = c then [] # seg # segs else (x # seg) # segs))"

definition urlsplit ::
  "(string \<Rightarrow> string option) \<Rightarrow> string \<Rightarrow> string
     \<Rightarrow> string + (string \<times> string \<times> string \<times> string \<times> string)" where
  "urlsplit check_bracketed_host url0 scheme0 =
     (let unsafe = (\<lambda>c. c \<in> set [char_of (9::nat), char_of (13::nat), char_of (10::nat)]);
          c0 = (\<lambda>c. (of_char c :: nat) \<le> 32);
          url1 = filter (\<lambda>c. \<not> unsafe c) (dropWhile c0 url0);
          scheme1 = filter (\<lambda>c. \<not> unsafe c) (rev (dropWhile c0 (rev (dropWhile c0 scheme0))));
          pre = takeWhile (\<lambda>c. c \<noteq> CHR '':'') url1;
          (scheme, url2) =
            (if CHR '':'' \<in> set url1 \<and> pre \<noteq> [] \<and> ascii_alpha (hd url1)
                \<and> list_all scheme_char pre
             then (lower pre, drop (Suc (length pre)) url1)
             else (scheme1, url1));
          is_delim = (\<lambda>c. c \<in> set ''/?#'');
          (netloc, url3) =
            (if take 2 url2 = ''//''
             then (takeWhile (\<lambda>c. \<not> is_delim c) (drop 2 url2),
                   dropWhile (\<lambda>c. \<not> is_delim c) (drop 2 url2))
             else ([], url2));
          lb = (CHR ''['' \<in> set netloc);
          rb = (CHR '']'' \<in> set netloc);
          bracketed =
            (if lb \<and> rb
             then check_bracketed_host
                    (fst (partition_at CHR '']'' (snd (partition_at CHR ''['' netloc))))
             else None)
      in if (lb \<and> \<not> rb) \<or> (rb \<and> \<not> lb) then Inl ''Invalid IPv6 URL''
         else
           (case bracketed of
              Some e \<Rightarrow> Inl e
            | None \<Rightarrow>
                let (url4, fragment) =
                      (if CHR ''#'' \<in> set url3 then partition_at CHR ''#'' url3
                       else (url3, []));
                    (url5, query) =
                      (if CHR ''?'' \<in> set url4 then partition_at CHR ''?'' url4
                       else (url4, []))
                in Inr (scheme, netloc, url5, query, fragment)))"

definition splitparams :: "string \<Rightarrow> string \<times> string" where
  "splitparams u =
     (if CHR ''/'' \<in> set u
      then (let last_seg = rev (takeWhile (\<lambda>c. c \<noteq> CHR ''/'') (rev u));
                front = take (length u - length last_seg) u
            in if CHR '';'' \<in> set last_seg
               then (front @ fst (partition_at CHR '';'' last_seg),
                     snd (partition_at CHR '';'' last_seg))
               else (u, []))
      else partition_at CHR '';'' u)"

definition urlparse ::
  "(string \<Rightarrow> string option) \<Rightarrow> string \<Rightarrow> string
     \<Rightarrow> string + (string \<times> string \<times> string \<times> string \<times> string \<times> string)" where
  "urlparse check_bracketed_host url0 scheme0 =
     (case urlsplit check_bracketed_host url0 scheme0 of
        Inl e \<Rightarrow> Inl e
      | Inr (scheme, netloc, u, query, fragment) \<Rightarrow>
          if scheme \<in> set uses_params \<and> CHR '';'' \<in> set u
          then (let (u', params) = splitparams u
                in Inr (scheme, netloc, u', params, query, fragment))
          else Inr (scheme, netloc, u, [], query, fragment))"

definition urlunsplit :: "string \<Rightarrow> string \<Rightarrow> string \<Rightarrow> string \<Rightarrow> string \<Rightarrow> string" where
  "urlunsplit scheme netloc u0 query fragment =
     (let u1 = (if netloc \<noteq> [] \<or> (scheme \<noteq> [] \<and> scheme \<in> set uses_netloc)
                   \<or> take 2 u0 = ''//''
                then ''//'' @ netloc
                     @ (if u0 \<noteq> [] \<and> take 1 u0 \<noteq> ''/'' then ''/'' @ u0 else u0)
                else u0);
          u2 = (if scheme \<noteq> [] then scheme @ '':'' @ u1 else u1);
          u3 = (if query \<noteq> [] then u2 @ ''?'' @ query else u2)
      in if fragment \<noteq> [] then u3 @ ''#'' @ fragment else u3)"

definition urlunparse ::
  "string \<Rightarrow> string \<Rightarrow> string \<Rightarrow> string \<Rightarrow> string \<Rightarrow> string \<Rightarrow> string" where
  "urlunparse scheme netloc u params query fragment =
     urlunsplit scheme netloc (if params \<noteq> [] then u @ '';'' @ params else u) query fragment"

text \<open>The loop over the segments, with \<open>resolved_path\<close>.\<close>

fun resolve :: "string list \<Rightarrow> string list \<Rightarrow> string list" where
  "resolve [] resolved_path = resolved_path"
| "resolve (seg # segs) resolved_path =
     (if seg = ''..'' then resolve segs (butlast resolved_path)
      else if seg = ''.'' then resolve segs resolved_path
      else resolve segs (resolved_path @ [seg]))"

definition py_urljoin ::
  "(string \<Rightarrow> string option) \<Rightarrow> string \<Rightarrow> string \<Rightarrow> exn + string" where
  "py_urljoin check_bracketed_host base u =
     (if base = [] then Inr u
      else if u = [] then Inr base
      else
        (case urlparse check_bracketed_host base [] of
           Inl e \<Rightarrow> Inl (Exception e)
         | Inr (bscheme, bnetloc, bpath, bparams, bquery, bfragment) \<Rightarrow>
             (case urlparse check_bracketed_host u bscheme of
                Inl e \<Rightarrow> Inl (Exception e)
              | Inr (scheme, netloc, path, params, query, fragment) \<Rightarrow>
                  if scheme \<noteq> bscheme \<or> scheme \<notin> set uses_relative then Inr u
                  else if scheme \<in> set uses_netloc \<and> netloc \<noteq> []
                  then Inr (urlunparse scheme netloc path params query fragment)
                  else
                    let netloc' = (if scheme \<in> set uses_netloc then bnetloc else netloc)
                    in if path = [] \<and> params = []
                       then Inr (urlunparse scheme netloc' bpath bparams
                                   (if query = [] then bquery else query) fragment)
                       else
                         let base_parts0 = split_on CHR ''/'' bpath;
                             base_parts = (if last base_parts0 \<noteq> [] then butlast base_parts0
                                           else base_parts0);
                             segments =
                               (if take 1 path = ''/'' then split_on CHR ''/'' path
                                else (let segs = base_parts @ split_on CHR ''/'' path
                                      in if length segs \<le> 2 then segs
                                         else hd segs
                                              # filter (\<lambda>seg. seg \<noteq> []) (butlast (tl segs))
                                              @ [last segs]));
                             resolved_path0 = resolve segments [];
                             resolved_path =
                               (if last segments \<in> set [''.'', ''..'']
                                then resolved_path0 @ [[]] else resolved_path0);
                             joined = join ''/'' resolved_path
                         in Inr (urlunparse scheme netloc'
                                   (if joined \<noteq> [] then joined else ''/'')
                                   params query fragment))))"

section \<open>The thread, its environment and its event stream\<close>

text \<open>
  Everything the thread does that can be seen from outside is an event: the four Qt
  signals, the creation of a \<open>requests.Session\<close>, a \<open>session.get\<close> (with the session,
  the URL, the headers in effect and the timeout) and a \<open>time.sleep\<close> (in milliseconds).
\<close>

datatype event =
    Progress_update int
  | Headline_found headline
  | Finished_scraping "headline list"
  | Error_occurred string
  | Session_created nat
  | Http_get nat string "(string \<times> string) list" nat
  | Sleep nat

text \<open>
  The environment answers what the code asks of the network, the clock and its libraries:
  \<open>http k\<close> is the outcome of the \<open>k\<close>-th \<open>session.get\<close> of the run (an exception or a
  response), \<open>now k\<close> the \<open>k\<close>-th reading of \<open>datetime.now()\<close>, formatted; the three
  parser backends and \<open>soup.select\<close> raise or return; \<open>urljoin\<close> is
  \<open>urllib.parse.urljoin\<close>. The caller's thread calls \<open>stop()\<close> once the worker has
  produced \<open>stop_after\<close> events (never when \<open>None\<close>).
\<close>

record env =
  http :: "nat \<Rightarrow> exn + response"
  now :: "nat \<Rightarrow> string"
  stop_after :: "nat option"
  lxml :: "string \<Rightarrow> exn + tag"
  html_parser :: "string \<Rightarrow> exn + tag"
  html5lib :: "string \<Rightarrow> exn + tag"
  css_select :: "tag \<Rightarrow> string \<Rightarrow> exn + tag list"
  urljoin :: "string \<Rightarrow> string \<Rightarrow> exn + string"

record state =
  is_running :: bool
  trace :: "event list"
  requests_made :: nat
  clock_reads :: nat
  sessions_made :: nat

definition stop :: "state \<Rightarrow> state" where
  "stop st = st\<lparr>is_running := False\<rparr>"

definition emit :: "env \<Rightarrow> event \<Rightarrow> state \<Rightarrow> state" where
  "emit w e st =
     (let st' = st\<lparr>trace := trace st @ [e]\<rparr>
      in if stop_after w = Some (length (trace st')) then stop st' else st')"

definition sleep :: "env \<Rightarrow> nat \<Rightarrow> state \<Rightarrow> state" where
  "sleep w ms st = emit w (Sleep ms) st"

text \<open>\<open>ScraperThread.__init__\<close> sets the flag; the caller may stop before the first event.\<close>

definition init :: "env \<Rightarrow> state" where
  "init w =
     (let st = \<lparr>is_running = True, trace = [], requests_made = 0, clock_reads = 0,
                 sessions_made = 0\<rparr>
      in if stop_after w = Some 0 then stop st else st)"

section \<open>Fetching a source\<close>

definition default_headers :: "news_source \<Rightarrow> (string \<times> string) list" where
  "default_headers src =
     [(''User-Agent'', ''Mozilla/5.0 (Windows NT 10.0; Win64; x64) AppleWebKit/537.36 (KHTML, like Gecko) Chrome/121.0.0.0 Safari/537.36''),
      (''Accept'', ''text/html,application/xhtml+xml,application/xml;q=0.9,image/avif,image/webp,image/apng,*/*;q=0.8,application/signed-exchange;v=b3;q=0.7''),
      (''Accept-Language'', ''en-US,en;q=0.9''),
      (''Accept-Encoding'', ''gzip, deflate, br''),
      (''DNT'', ''1''),
      (''Connection'', ''keep-alive''),
      (''Upgrade-Insecure-Requests'', ''1''),
      (''Sec-Fetch-Dest'', ''document''),
      (''Sec-Fetch-Mode'', ''navigate''),
      (''Sec-Fetch-Site'', ''none''),
      (''Sec-Fetch-User'', ''?1''),
      (''Cache-Control'', ''max-age=0''),
      (''Referer'', if news_source.url src \<noteq> [] then news_source.url src
                    else ''https://www.google.com/'')]"

definition alternate_user_agent :: string where
  "alternate_user_agent = ''Mozilla/5.0 (Macintosh; Intel Mac OS X 10_15_7) AppleWebKit/605.1.15 (KHTML, like Gecko) Version/16.1 Safari/605.1.15''"

text \<open>\<open>dict.update\<close> with one key: the value is replaced in place, or the key is added.\<close>

fun update :: "string \<Rightarrow> string \<Rightarrow> (string \<times> string) list \<Rightarrow> (string \<times> string) list" where
  "update k v [] = [(k, v)]"
| "update k v (p # ps) = (if fst p = k then (k, v) # ps else p # update k v ps)"

text \<open>\<open>requests.Session()\<close> followed by \<open>session.headers.update(headers)\<close>.\<close>

definition new_session :: "env \<Rightarrow> news_source \<Rightarrow> state \<Rightarrow> session \<times> state" where
  "new_session w src st =
     (\<lparr>session_id = sessions_made st, headers = default_headers src\<rparr>,
      emit w (Session_created (sessions_made st)) (st\<lparr>sessions_made := Suc (sessions_made st)\<rparr>))"

definition session_get ::
  "env \<Rightarrow> session \<Rightarrow> string \<Rightarrow> nat \<Rightarrow> state \<Rightarrow> (exn + response) \<times> state" where
  "session_get w s u timeout st =
     (http w (requests_made st),
      emit w (Http_get (session_id s) u (headers s) timeout)
        (st\<lparr>requests_made := Suc (requests_made st)\<rparr>))"

text \<open>
  The loop \<open>for attempt in range(max_attempts)\<close> of the branch for the two sites with
  special handling. It carries the session (whose headers a 403 changes) and the variable
  \<open>response\<close> (\<open>None\<close> until a request returns). \<open>Inl\<close> is the exception re-raised on the
  last attempt.
\<close>

fun attempts ::
  "env \<Rightarrow> news_source \<Rightarrow> nat \<Rightarrow> nat list \<Rightarrow> session \<Rightarrow> response option \<Rightarrow> state
     \<Rightarrow> (exn + response option) \<times> state" where
  "attempts w src max_attempts [] s response st = (Inr response, st)"
| "attempts w src max_attempts (attempt # rest) s response st =
     (case session_get w s (news_source.url src) 15 st of
        (Inr r, st1) \<Rightarrow>
          if status_code r = 200 then (Inr (Some r), st1)
          else if status_code r = 403
          then attempts w src max_attempts rest
                 (s\<lparr>headers := update ''User-Agent'' alternate_user_agent (headers s)\<rparr>)
                 (Some r) (sleep w 3000 st1)
          else attempts w src max_attempts rest s (Some r) (sleep w 1000 st1)
      | (Inl e, st1) \<Rightarrow>
          if attempt = max_attempts - 1 then (Inl e, st1)
          else attempts w src max_attempts rest s response (sleep w 2000 st1))"

text \<open>From the creation of the session to \<open>response.raise_for_status()\<close>.\<close>

definition fetch :: "env \<Rightarrow> news_source \<Rightarrow> state \<Rightarrow> (exn + response) \<times> state" where
  "fetch w src st =
     (let (s, st0) = new_session w src st;
          (res, st2) =
            (if contains (news_source.url src) ''indianexpress.com''
                \<or> contains (news_source.url src) ''timesofindia.indiatimes.com''
             then (let max_attempts = 3
                   in case attempts w src max_attempts [0..<max_attempts] s None
                             (sleep w 2000 st0) of
                        (Inl e, st1) \<Rightarrow> (Inl e, st1)
                      | (Inr response, st1) \<Rightarrow>
                          (case response of
                             Some r \<Rightarrow>
                               if \<not> ok r \<or> status_code r \<noteq> 200
                               then (Inl (Exception (''Failed to access '' @ name src
                                       @ '' after '' @ show_nat max_attempts
                                       @ '' attempts. Status: ''
                                       @ (if ok r then show_nat (status_code r)
                                          else ''No response''))), st1)
                               else (Inr r, st1)
                           | None \<Rightarrow>
                               (Inl (Exception (''Failed to access '' @ name src
                                       @ '' after '' @ show_nat max_attempts
                                       @ '' attempts. Status: '' @ ''No response'')), st1)))
             else session_get w s (news_source.url src) 10 st0)
      in case res of
           Inl e \<Rightarrow> (Inl e, st2)
         | Inr r \<Rightarrow>
             (case raise_for_status r of
                Some e \<Rightarrow> (Inl e, st2)
              | None \<Rightarrow> (Inr r, st2)))"

section \<open>Parsing and selecting\<close>

text \<open>
  The parser chain: each backend is tried when the one before raised. The object a
  backend returns is always true in Python, so the test \<open>if not soup\<close> never fires.
\<close>

definition parse :: "env \<Rightarrow> string \<Rightarrow> exn + tag" where
  "parse w c =
     (case lxml w c of
        Inr soup \<Rightarrow> Inr soup
      | Inl e1 \<Rightarrow>
          (case html_parser w c of
             Inr soup \<Rightarrow> Inr soup
           | Inl e2 \<Rightarrow> html5lib w c))"

fun first_match :: "env \<Rightarrow> tag \<Rightarrow> string list \<Rightarrow> tag list" where
  "first_match w soup [] = []"
| "first_match w soup (selector # rest) =
     (case css_select w soup selector of
        Inr elements \<Rightarrow> if elements \<noteq> [] then elements else first_match w soup rest
      | Inl e \<Rightarrow> first_match w soup rest)"

definition alternative_selectors :: "string list" where
  \<open>alternative_selectors =
     [''a[href*="news"]'', ''a[href*="story"]'', ''a[href*="article"]'',
      ''.headline'', ''.title'', ''.news-title'', ''.story-headline'',
      ''h1 a'', ''h2 a'', ''h3 a'', ''h4 a'',
      ''[class*="headline"]'', ''[class*="title"]'', ''[class*="story"]'']\<close>

definition select_elements :: "env \<Rightarrow> tag \<Rightarrow> news_source \<Rightarrow> tag list" where
  "select_elements w soup src =
     (let elements = first_match w soup (selectors src)
      in if elements = [] then first_match w soup alternative_selectors else elements)"

section \<open>Extracting headlines\<close>

definition headings :: "string list" where
  "headings = [''h1'', ''h2'', ''h3'', ''h4'', ''h5'', ''h6'']"

definition extract_title :: "tag \<Rightarrow> string" where
  "extract_title element =
     (if tag_name element \<in> set headings then strip (get_text element)
      else if tag_name element = ''a''
      then (let t = strip (get_text element)
            in if t = []
               then (case find_tag element (headings @ [''span'', ''div'']) of
                       Some nested \<Rightarrow> strip (get_text nested)
                     | None \<Rightarrow> t)
               else t)
      else strip (get_text element))"

definition skip_patterns :: "string list" where
  "skip_patterns =
     [''Home'', ''News'', ''Sports'', ''Business'', ''Opinion'', ''Entertainment'',
      ''Login'', ''Subscribe'', ''Advertisement'', ''More'', ''Latest'', ''Breaking'',
      ''Top Stories'', ''Read More'', ''View All'', ''Load More'']"

definition find_link :: "tag \<Rightarrow> string option" where
  "find_link element =
     (if tag_name element = ''a'' then get element ''href''
      else (case find_tag element [''a''] of
              Some link_element \<Rightarrow> get link_element ''href''
            | None \<Rightarrow> None))"

text \<open>
  \<open>if link and not link.startswith('http'): link = urljoin(source.url, link)\<close>, where
  \<open>urljoin\<close> may raise.
\<close>

definition make_absolute :: "env \<Rightarrow> news_source \<Rightarrow> string option \<Rightarrow> exn + string option" where
  "make_absolute w src link =
     (case link of
        None \<Rightarrow> Inr None
      | Some l \<Rightarrow>
          if l \<noteq> [] \<and> \<not> startswith l ''http''
          then (case urljoin w (news_source.url src) l of
                  Inl e \<Rightarrow> Inl e
                | Inr l' \<Rightarrow> Inr (Some l'))
          else Inr (Some l))"

text \<open>\<open>link or source.url\<close>\<close>

definition link_or :: "string option \<Rightarrow> string \<Rightarrow> string" where
  "link_or link u = (case link of None \<Rightarrow> u | Some l \<Rightarrow> if l \<noteq> [] then l else u)"

record loop_state =
  count :: int
  processed_titles :: "string set"
  headlines :: "headline list"

text \<open>
  The loop \<open>for element in elements\<close>. An exception leaves the loop and the function:
  the local list \<open>headlines\<close> is lost, the events already emitted are not.
\<close>

fun extract_loop ::
  "env \<Rightarrow> news_source \<Rightarrow> int \<Rightarrow> tag list \<Rightarrow> loop_state \<Rightarrow> state
     \<Rightarrow> (exn + headline list) \<times> state" where
  "extract_loop w src max_headlines [] ls st = (Inr (headlines ls), st)"
| "extract_loop w src max_headlines (element # rest) ls st =
     (if max_headlines \<le> count ls then (Inr (headlines ls), st)
      else
        let t = join '' '' (split (extract_title element))
        in if t = [] \<or> length t < 15 \<or> t \<in> processed_titles ls
           then extract_loop w src max_headlines rest ls st
           else if list_ex (\<lambda>pattern. contains (lower t) (lower pattern)) skip_patterns
                   \<and> length t < 30
           then extract_loop w src max_headlines rest ls st
           else
             (case make_absolute w src (find_link element) of
                Inl e \<Rightarrow> (Inl e, st)
              | Inr link \<Rightarrow>
                  let headline_data =
                        \<lparr>title = t,
                         url = link_or link (news_source.url src),
                         source = name src,
                         timestamp = now w (clock_reads st)\<rparr>;
                      st1 = emit w (Headline_found headline_data)
                              (st\<lparr>clock_reads := Suc (clock_reads st)\<rparr>)
                  in extract_loop w src max_headlines rest
                       (ls\<lparr>count := count ls + 1,
                           processed_titles := insert t (processed_titles ls),
                           headlines := headlines ls @ [headline_data]\<rparr>) st1))"

definition extract_all ::
  "env \<Rightarrow> news_source \<Rightarrow> int \<Rightarrow> tag list \<Rightarrow> state \<Rightarrow> (exn + headline list) \<times> state" where
  "extract_all w src max_headlines elements st =
     extract_loop w src max_headlines elements
       \<lparr>count = 0, processed_titles = {}, headlines = []\<rparr> st"

section \<open>\<open>ScraperThread.scrape_source\<close> and \<open>ScraperThread.run\<close>\<close>

text \<open>The body of the \<open>try\<close> of \<open>scrape_source\<close>.\<close>

definition scrape_body ::
  "env \<Rightarrow> int \<Rightarrow> news_source \<Rightarrow> state \<Rightarrow> (exn + headline list) \<times> state" where
  "scrape_body w max_headlines src st =
     (case fetch w src st of
        (Inl e, st1) \<Rightarrow> (Inl e, st1)
      | (Inr r, st1) \<Rightarrow>
          (case parse w (content r) of
             Inl e \<Rightarrow> (Inl e, st1)
           | Inr soup \<Rightarrow>
               extract_all w src max_headlines (select_elements w soup src) st1))"

text \<open>
  The two handlers turn every exception into a plain \<open>Exception\<close> with a message;
  \<open>Inl\<close> is that message, \<open>Inr\<close> the returned list.
\<close>

definition scrape_source ::
  "env \<Rightarrow> int \<Rightarrow> news_source \<Rightarrow> state \<Rightarrow> (string + headline list) \<times> state" where
  "scrape_source w max_headlines src st =
     (case scrape_body w max_headlines src st of
        (Inr hs, st1) \<Rightarrow> (Inr hs, st1)
      | (Inl (RequestException m), st1) \<Rightarrow>
          (Inl (if contains m ''403'' \<or> contains m ''Forbidden''
                then ''Access denied to '' @ name src
                     @ ''. The website may be blocking automated requests. Try using a VPN or contact the site for API access.''
                else if contains (lower m) ''timeout''
                then ''Timeout connecting to '' @ name src
                     @ ''. The website may be slow or unreachable.''
                else ''Network error accessing '' @ name src @ '': '' @ m), st1)
      | (Inl (Exception m), st1) \<Rightarrow>
          (Inl (''Failed to scrape '' @ name src @ '': '' @ m), st1))"

text \<open>
  The loop \<open>for i, source in enumerate(self.sources)\<close>, with the list \<open>all_headlines\<close>.
\<close>

fun run_loop ::
  "env \<Rightarrow> int \<Rightarrow> nat \<Rightarrow> nat \<Rightarrow> news_source list \<Rightarrow> headline list \<Rightarrow> state
     \<Rightarrow> headline list \<times> state" where
  "run_loop w max_headlines total_sources i [] all_headlines st = (all_headlines, st)"
| "run_loop w max_headlines total_sources i (src # rest) all_headlines st =
     (if \<not> is_running st then (all_headlines, st)
      else
        (case scrape_source w max_headlines src st of
           (Inr hs, st1) \<Rightarrow>
             run_loop w max_headlines total_sources (Suc i) rest (all_headlines @ hs)
               (sleep w 500 (emit w (Progress_update (percent (i + 1) total_sources)) st1))
         | (Inl msg, st1) \<Rightarrow>
             run_loop w max_headlines total_sources (Suc i) rest all_headlines
               (emit w (Error_occurred (''Error scraping '' @ name src @ '': '' @ msg))
                  st1)))"

definition run :: "env \<Rightarrow> news_source list \<Rightarrow> int \<Rightarrow> state" where
  "run w sources max_headlines =
     (let (all_headlines, st) =
            run_loop w max_headlines (length sources) 0 sources [] (init w)
      in emit w (Finished_scraping all_headlines) st)"

section \<open>Observing the event stream\<close>

text \<open>
  The functions of this section are not part of the program: they read the event stream
  and the loop variables, and the theorems are stated with them. An outcome event is the
  event that ends the processing of one source: an error event or a progress event.
  \<open>found\<close> lists the records announced one by one.
\<close>

fun is_error :: "event \<Rightarrow> bool" where
  "is_error (Error_occurred m) = True"
| "is_error _ = False"

fun is_progress :: "event \<Rightarrow> bool" where
  "is_progress (Progress_update p) = True"
| "is_progress _ = False"

definition is_outcome :: "event \<Rightarrow> bool" where
  "is_outcome e = (is_error e \<or> is_progress e)"

fun is_finished :: "event \<Rightarrow> bool" where
  "is_finished (Finished_scraping hs) = True"
| "is_finished _ = False"

fun is_session_created :: "event \<Rightarrow> bool" where
  "is_session_created (Session_created n) = True"
| "is_session_created _ = False"

fun is_http_get :: "event \<Rightarrow> bool" where
  "is_http_get (Http_get n u hs t) = True"
| "is_http_get _ = False"

fun found_of :: "event \<Rightarrow> headline list" where
  "found_of (Headline_found h) = [h]"
| "found_of _ = []"

definition found :: "event list \<Rightarrow> headline list" where
  "found evs = concat (map found_of evs)"

definition referer :: "news_source \<Rightarrow> string" where
  "referer src = (if news_source.url src \<noteq> [] then news_source.url src else ''https://www.google.com/'')"

text \<open>
  The events of a fetch through session \<open>n\<close>: requests to the source's URL through that
  session, with the \<open>Referer\<close> of the source, and sleeps.
\<close>

fun fetch_event :: "nat \<Rightarrow> news_source \<Rightarrow> event \<Rightarrow> bool" where
  "fetch_event n src (Http_get s u hs t) =
     (s = n \<and> u = news_source.url src \<and> map_of hs ''Referer'' = Some (referer src))"
| "fetch_event n src (Sleep ms) = True"
| "fetch_event n src _ = False"

text \<open>
  The flag and the caller agree: the flag is set as long as the worker has produced fewer
  events than the caller waits for before calling \<open>stop()\<close>.
\<close>

definition consistent :: "env \<Rightarrow> state \<Rightarrow> bool" where
  "consistent w st =
     (is_running st = (case stop_after w of None \<Rightarrow> True | Some n \<Rightarrow> length (trace st) < n))"

definition quiet :: "event \<Rightarrow> bool" where
  "quiet e = (\<not> is_outcome e \<and> \<not> is_finished e)"

text \<open>
  \<open>kept\<close> reads an event stream from left to right: the records announced since the last
  outcome event are pending; a progress event keeps them, an error event drops them.
\<close>

fun kept_step :: "headline list \<times> headline list \<Rightarrow> event \<Rightarrow> headline list \<times> headline list" where
  "kept_step (finished, pending) (Headline_found h) = (finished, pending @ [h])"
| "kept_step (finished, pending) (Progress_update p) = (finished @ pending, [])"
| "kept_step (finished, pending) (Error_occurred m) = (finished, [])"
| "kept_step (finished, pending) e = (finished, pending)"

definition kept :: "event list \<Rightarrow> headline list" where
  "kept evs = fst (foldl kept_step ([], []) evs)"

text \<open>
  The events of the loop of \<open>run\<close>, from position \<open>i\<close> on: one block per source taken,
  made of quiet events and closed by a progress event and the sleep between sources, or by
  an error event; with the records of the blocks that succeeded and the number of blocks.
\<close>

inductive run_shape :: "nat \<Rightarrow> nat \<Rightarrow> event list \<Rightarrow> headline list \<Rightarrow> nat \<Rightarrow> bool"
  for tot :: nat where
  none: "run_shape tot i [] [] 0"
| succeeded:
    "list_all quiet evs \<Longrightarrow> run_shape tot (Suc i) rest hs' k \<Longrightarrow>
       run_shape tot i (evs @ Progress_update (percent (i + 1) tot) # Sleep 500 # rest)
         (found evs @ hs') (Suc k)"
| failed:
    "list_all quiet evs \<Longrightarrow> run_shape tot (Suc i) rest hs' k \<Longrightarrow>
       run_shape tot i (evs @ Error_occurred msg # rest) hs' (Suc k)"

fun header_of :: "string \<Rightarrow> event \<Rightarrow> string option" where
  "header_of key (Http_get n u hs t) = map_of hs key"
| "header_of key _ = None"

fun sleep_of :: "event \<Rightarrow> nat list" where
  "sleep_of (Sleep ms) = [ms]"
| "sleep_of _ = []"

text \<open>
  A record without its timestamp.
\<close>

definition untimed :: "headline \<Rightarrow> string \<times> string \<times> string" where
  "untimed h = (title h, headline.url h, source h)"

text \<open>
  The two tests of the extraction loop that end in \<open>continue\<close>, for the set of titles seen
  so far, and the record that the loop builds for an element it accepts.
\<close>

definition discarded :: "string set \<Rightarrow> tag \<Rightarrow> bool" where
  "discarded seen element =
     (let t = join '' '' (split (extract_title element))
      in t = [] \<or> length t < 15 \<or> t \<in> seen
         \<or> (list_ex (\<lambda>pattern. contains (lower t) (lower pattern)) skip_patterns
             \<and> length t < 30))"

definition accepted :: "env \<Rightarrow> news_source \<Rightarrow> tag \<Rightarrow> string option \<Rightarrow> state \<Rightarrow> headline" where
  "accepted w src element link st =
     \<lparr>title = join '' '' (split (extract_title element)),
      url = link_or link (news_source.url src), source = name src,
      timestamp = now w (clock_reads st)\<rparr>"

fun session_of :: "event \<Rightarrow> nat option" where
  "session_of (Session_created n) = Some n"
| "session_of (Http_get n u hs t) = Some n"
| "session_of _ = None"

fun url_of :: "event \<Rightarrow> string option" where
  "url_of (Http_get n u hs t) = Some u"
| "url_of _ = None"

text \<open>
  \<open>starts_before k off es\<close>: every session creation in \<open>es\<close>, whose first event has
  position \<open>off\<close> in the stream, is at a position below \<open>k\<close>.
\<close>

fun starts_before :: "nat \<Rightarrow> nat \<Rightarrow> event list \<Rightarrow> bool" where
  "starts_before k off [] = True"
| "starts_before k off (e # es) =
     ((is_session_created e \<longrightarrow> off < k) \<and> starts_before k (Suc off) es)"

section \<open>Concrete sources, pages and environments\<close>

text \<open>
  The environments of the concrete runs share their libraries: \<open>lxml\<close> parses the three
  pages below and the other backends are not reached, \<open>soup.select\<close> knows the type
  selectors (a tag name selects the nested tags of that name), and \<open>urljoin\<close> is
  \<open>py_urljoin\<close>. The clock advances by one second at every reading.
\<close>

definition page_markets :: tag where
  "page_markets = Tag ''[document]'' []
     [Inr (Tag ''h2'' [] [Inl ''  Markets rally   as inflation cools  '']),
      Inr (Tag ''h2'' [] [Inl ''Breaking news today!'']),
      Inr (Tag ''h2'' [] [Inl ''Markets rally as inflation cools''])]"

definition page_storm :: tag where
  "page_storm = Tag ''[document]'' []
     [Inr (Tag ''h2'' []
        [Inr (Tag ''a'' [(''href'', ''/world/story-1'')]
           [Inl ''Breaking: storm hits the northern coast!''])])]"

definition page_budget :: tag where
  "page_budget = Tag ''[document]'' []
     [Inr (Tag ''h2'' [] [Inl ''Lawmakers pass the annual budget bill'']),
      Inr (Tag ''h2'' []
        [Inr (Tag ''a'' [(''href'', ''//['')] [Inl ''Senate schedules a vote on the treaty''])])]"

definition lxml_pages :: "string \<Rightarrow> exn + tag" where
  "lxml_pages c =
     (if c = ''markets'' then Inr page_markets
      else if c = ''storm'' then Inr page_storm
      else if c = ''budget'' then Inr page_budget
      else Inr (Tag ''[document]'' [] []))"

definition select_by_name :: "tag \<Rightarrow> string \<Rightarrow> exn + tag list" where
  "select_by_name soup selector = Inr (filter (\<lambda>t. tag_name t = selector) (descendants soup))"

definition clock_seconds :: "nat \<Rightarrow> string" where
  "clock_seconds k = ''2024-05-01 12:00:'' @ (if k < 10 then ''0'' else []) @ show_nat k"

definition served :: "string \<Rightarrow> string \<Rightarrow> exn + response" where
  "served u c = Inr \<lparr>status_code = 200, reason = ''OK'', response_url = u, content = c\<rparr>"

definition refused :: "string \<Rightarrow> nat \<Rightarrow> string \<Rightarrow> exn + response" where
  "refused u code why = Inr \<lparr>status_code = code, reason = why, response_url = u, content = []\<rparr>"

definition world :: "(nat \<Rightarrow> exn + response) \<Rightarrow> nat option \<Rightarrow> env" where
  "world net stopped =
     \<lparr>http = net, now = clock_seconds, stop_after = stopped,
      lxml = lxml_pages,
      html_parser = (\<lambda>c. Inl (Exception ''no parser'')),
      html5lib = (\<lambda>c. Inl (Exception ''no parser'')),
      css_select = select_by_name,
      urljoin = py_urljoin (\<lambda>host. None)\<rparr>"

definition src_markets :: news_source where
  "src_markets = \<lparr>name = ''Markets Daily'', url = ''https://markets.example.com/news'',
                   selectors = [''h1'', ''h2'']\<rparr>"

definition src_storm :: news_source where
  "src_storm = \<lparr>name = ''Weather Wire'', url = ''https://example.com/news'',
                 selectors = [''h2'']\<rparr>"

definition src_budget :: news_source where
  "src_budget = \<lparr>name = ''Capitol Post'', url = ''https://capitol.example.com/'',
                  selectors = [''h2'']\<rparr>"

definition src_times :: news_source where
  "src_times = \<lparr>name = ''Times of India'', url = ''https://timesofindia.indiatimes.com/'',
                 selectors = [''h2'']\<rparr>"

text \<open>Three sources, the second of which times out.\<close>

definition net_timeout :: "nat \<Rightarrow> exn + response" where
  "net_timeout k =
     (if k = 0 then served ''https://markets.example.com/news'' ''markets''
      else if k = 1
      then Inl (RequestException
             ''HTTPSConnectionPool(host=capitol.example.com, port=443): Read timed out. (read timeout=10)'')
      else served ''https://example.com/news'' ''storm'')"

text \<open>A network on which every request times out.\<close>

definition net_down :: "nat \<Rightarrow> exn + response" where
  "net_down k = Inl (RequestException
     ''HTTPSConnectionPool(host=capitol.example.com, port=443): Read timed out. (read timeout=10)'')"

text \<open>The loop variables at the start of an extraction pass.\<close>

definition fresh :: loop_state where
  "fresh = \<lparr>count = 0, processed_titles = {}, headlines = []\<rparr>"

text \<open>A site that answers 403 to every request, and one that gives in at the third.\<close>

definition net_forbidden :: "nat \<Rightarrow> exn + response" where
  "net_forbidden k = refused ''https://timesofindia.indiatimes.com/'' 403 ''Forbidden''"

definition net_retry :: "nat \<Rightarrow> exn + response" where
  "net_retry k =
     (if k < 2 then refused ''https://timesofindia.indiatimes.com/'' 403 ''Forbidden''
      else served ''https://timesofindia.indiatimes.com/'' ''markets'')"

text \<open>A second clock, for a pass made on another day.\<close>

definition clock_next_day :: "nat \<Rightarrow> string" where
  "clock_next_day k = ''2024-05-02 09:30:'' @ (if k < 10 then ''0'' else []) @ show_nat k"

text \<open>Two sources that both answer.\<close>

definition net_two :: "nat \<Rightarrow> exn + response" where
  "net_two k =
     (if k = 0 then served ''https://markets.example.com/news'' ''markets''
      else served ''https://example.com/news'' ''storm'')"

text \<open>A site whose page holds a link that \<open>urljoin\<close> rejects.\<close>

definition net_capitol :: "nat \<Rightarrow> exn + response" where
  "net_capitol k = served ''https://capitol.example.com/'' ''budget''"

section \<open>The shape of the event stream\<close>

lemma trace_emit [simp]: "trace (emit w e st) = trace st @ [e]"
  by (simp add: emit_def stop_def Let_def)

lemma requests_made_emit [simp]: "requests_made (emit w e st) = requests_made st"
  by (simp add: emit_def stop_def Let_def)

lemma clock_reads_emit [simp]: "clock_reads (emit w e st) = clock_reads st"
  by (simp add: emit_def stop_def Let_def)

lemma sessions_made_emit [simp]: "sessions_made (emit w e st) = sessions_made st"
  by (simp add: emit_def stop_def Let_def)

lemma is_running_emit [simp]:
  "is_running (emit w e st) = (is_running st \<and> stop_after w \<noteq> Some (Suc (length (trace st))))"
  by (simp add: emit_def stop_def Let_def)

lemma consistent_emit [simp]: "consistent w st \<Longrightarrow> consistent w (emit w e st)"
  by (auto simp: consistent_def emit_def stop_def Let_def split: option.splits)

lemma consistent_counters [simp]:
  "consistent w (st\<lparr>requests_made := a\<rparr>) = consistent w st"
  "consistent w (st\<lparr>clock_reads := b\<rparr>) = consistent w st"
  "consistent w (st\<lparr>sessions_made := c\<rparr>) = consistent w st"
  by (simp_all add: consistent_def split: option.splits)

lemma consistent_init: "consistent w (init w)"
  by (auto simp: consistent_def init_def stop_def Let_def split: option.splits)

lemma map_of_update: "map_of (update k v ps) k' = (if k' = k then Some v else map_of ps k')"
  by (induction ps) auto

lemma session_get_trace:
  "session_get w s u t st = (r, st1) \<Longrightarrow>
     trace st1 = trace st @ [Http_get (session_id s) u (headers s) t]
     \<and> sessions_made st1 = sessions_made st
     \<and> (consistent w st \<longrightarrow> consistent w st1)"
  by (auto simp: session_get_def)

lemma attempts_trace:
  "attempts w src m as s resp st = (r, st1) \<Longrightarrow>
   map_of (headers s) ''Referer'' = Some (referer src) \<Longrightarrow>
     \<exists>evs. trace st1 = trace st @ evs \<and> list_all (fetch_event (session_id s) src) evs
       \<and> sessions_made st1 = sessions_made st
       \<and> (consistent w st \<longrightarrow> consistent w st1)"
proof (induction as arbitrary: s resp st)
  case Nil
  then show ?case by simp
next
  case (Cons a as)
  obtain x st0 where sg: "session_get w s (news_source.url src) 15 st = (x, st0)"
    by (cases "session_get w s (news_source.url src) 15 st")
  note t0 = session_get_trace [OF sg]
  show ?case
  proof (cases x)
    case (Inl e)
    show ?thesis
    proof (cases "a = m - 1")
      case True
      with Cons.prems sg Inl t0 show ?thesis by (auto simp: sleep_def)
    next
      case False
      with Cons.prems sg Inl have
        "attempts w src m as s resp (sleep w 2000 st0) = (r, st1)" by simp
      from Cons.IH [OF this Cons.prems(2)] t0 Cons.prems(2) show ?thesis
        by (auto simp: sleep_def)
    qed
  next
    case (Inr resp')
    consider "status_code resp' = 200" | "status_code resp' = 403"
      | "status_code resp' \<noteq> 200" "status_code resp' \<noteq> 403" by blast
    then show ?thesis
    proof cases
      case 1
      with Cons.prems sg Inr t0 show ?thesis by (auto simp: sleep_def)
    next
      case 2
      let ?s = "s\<lparr>headers := update ''User-Agent'' alternate_user_agent (headers s)\<rparr>"
      from 2 Cons.prems sg Inr have
        a: "attempts w src m as ?s (Some resp') (sleep w 3000 st0) = (r, st1)" by simp
      have "map_of (headers ?s) ''Referer'' = Some (referer src)"
        using Cons.prems(2) by (simp add: map_of_update)
      from Cons.IH [OF a this] t0 Cons.prems(2) show ?thesis
        by (auto simp: sleep_def)
    next
      case 3
      with Cons.prems sg Inr have
        "attempts w src m as s (Some resp') (sleep w 1000 st0) = (r, st1)" by simp
      from Cons.IH [OF this Cons.prems(2)] t0 Cons.prems(2) show ?thesis
        by (auto simp: sleep_def)
    qed
  qed
qed


lemma referer_default_headers: "map_of (default_headers src) ''Referer'' = Some (referer src)"
  by (simp add: default_headers_def referer_def)

lemma fetch_trace:
  assumes "fetch w src st = (r, st1)"
  shows "\<exists>evs. trace st1 = trace st @ Session_created (sessions_made st) # evs
           \<and> list_all (fetch_event (sessions_made st) src) evs
           \<and> sessions_made st1 = Suc (sessions_made st)
           \<and> (consistent w st \<longrightarrow> consistent w st1)"
proof -
  let ?s = "\<lparr>session_id = sessions_made st, headers = default_headers src\<rparr>"
  let ?st0 = "emit w (Session_created (sessions_made st)) (st\<lparr>sessions_made := Suc (sessions_made st)\<rparr>)"
  have ns: "new_session w src st = (?s, ?st0)" by (simp add: new_session_def)
  have ref: "map_of (headers ?s) ''Referer'' = Some (referer src)"
    by (simp add: referer_default_headers)
  show ?thesis
  proof (cases "contains (news_source.url src) ''indianexpress.com''
                \<or> contains (news_source.url src) ''timesofindia.indiatimes.com''")
    case True
    obtain x st2 where at: "attempts w src 3 [0..<3] ?s None (sleep w 2000 ?st0) = (x, st2)"
      by (cases "attempts w src 3 [0..<3] ?s None (sleep w 2000 ?st0)")
    from attempts_trace [OF at ref] obtain evs where
      evs: "trace st2 = trace (sleep w 2000 ?st0) @ evs"
        "list_all (fetch_event (sessions_made st) src) evs"
        "sessions_made st2 = sessions_made (sleep w 2000 ?st0)"
        "consistent w (sleep w 2000 ?st0) \<longrightarrow> consistent w st2"
      by auto
    have st1: "st1 = st2"
      using assms True at ns
      by (auto simp: fetch_def Let_def split: sum.splits option.splits if_splits prod.splits)
    show ?thesis
      using evs unfolding st1
      by (intro exI [of _ "Sleep 2000 # evs"]) (simp add: sleep_def)
  next
    case False
    obtain x st2 where sg: "session_get w ?s (news_source.url src) 10 ?st0 = (x, st2)"
      by (cases "session_get w ?s (news_source.url src) 10 ?st0")
    have st1: "st1 = st2"
      using assms False sg ns
      by (auto simp: fetch_def Let_def split: sum.splits option.splits if_splits prod.splits)
    show ?thesis
      using session_get_trace [OF sg] unfolding st1
      by (intro exI [of _ "[Http_get (sessions_made st) (news_source.url src) (default_headers src) 10]"])
         (simp add: referer_default_headers)
  qed
qed


lemma found_map_Headline_found [simp]: "found (map Headline_found hs) = hs"
  by (induction hs) (simp_all add: found_def)

lemma found_append [simp]: "found (xs @ ys) = found xs @ found ys"
  by (simp add: found_def)

lemma extract_loop_trace:
  "extract_loop w src mh els ls st = (r, st1) \<Longrightarrow>
     \<exists>hs. trace st1 = trace st @ map Headline_found hs
       \<and> (\<forall>hs'. r = Inr hs' \<longrightarrow> hs' = headlines ls @ hs)
       \<and> distinct (map title hs)
       \<and> set (map title hs) \<inter> processed_titles ls = {}
       \<and> sessions_made st1 = sessions_made st
       \<and> (consistent w st \<longrightarrow> consistent w st1)"
proof (induction els arbitrary: ls st)
  case Nil
  then show ?case by (intro exI [of _ "[]"]) auto
next
  case (Cons element rest)
  let ?t = "join '' '' (split (extract_title element))"
  let ?skip = "?t = [] \<or> length ?t < 15 \<or> ?t \<in> processed_titles ls
     \<or> (list_ex (\<lambda>pattern. contains (lower ?t) (lower pattern)) skip_patterns \<and> length ?t < 30)"
  show ?case
  proof (cases "mh \<le> count ls")
    case True
    with Cons.prems show ?thesis by (intro exI [of _ "[]"]) auto
  next
    case running: False
    show ?thesis
    proof (cases ?skip)
      case True
      with running Cons.prems have "extract_loop w src mh rest ls st = (r, st1)"
        by (auto simp: Let_def split: if_splits)
      from Cons.IH [OF this] show ?thesis .
    next
      case keep: False
      show ?thesis
      proof (cases "make_absolute w src (find_link element)")
        case (Inl e)
        with running keep Cons.prems show ?thesis
          by (intro exI [of _ "[]"]) (auto simp: Let_def split: if_splits)
      next
        case (Inr link)
        let ?h = "\<lparr>title = ?t, url = link_or link (news_source.url src), source = name src,
                    timestamp = now w (clock_reads st)\<rparr>"
        let ?st = "emit w (Headline_found ?h) (st\<lparr>clock_reads := Suc (clock_reads st)\<rparr>)"
        let ?ls = "ls\<lparr>count := count ls + 1, processed_titles := insert ?t (processed_titles ls),
                       headlines := headlines ls @ [?h]\<rparr>"
        from running keep Inr Cons.prems have
          "extract_loop w src mh rest ?ls ?st = (r, st1)"
          by (auto simp: Let_def split: if_splits)
        from Cons.IH [OF this] obtain hs where hs:
          "trace st1 = trace ?st @ map Headline_found hs"
          "\<forall>hs'. r = Inr hs' \<longrightarrow> hs' = headlines ?ls @ hs"
          "distinct (map title hs)"
          "set (map title hs) \<inter> processed_titles ?ls = {}"
          "sessions_made st1 = sessions_made ?st"
          "consistent w ?st \<longrightarrow> consistent w st1"
          by blast
        show ?thesis
          using hs keep by (intro exI [of _ "?h # hs"]) auto
      qed
    qed
  qed
qed

lemma scrape_body_trace:
  assumes "scrape_body w mh src st = (r, st1)"
  shows "\<exists>evs hs. trace st1 = trace st @ Session_created (sessions_made st) # evs
                     @ map Headline_found hs
           \<and> list_all (fetch_event (sessions_made st) src) evs
           \<and> (\<forall>hs'. r = Inr hs' \<longrightarrow> hs' = hs)
           \<and> distinct (map title hs)
           \<and> sessions_made st1 = Suc (sessions_made st)
           \<and> (consistent w st \<longrightarrow> consistent w st1)"
proof -
  obtain x st0 where f: "fetch w src st = (x, st0)" by (cases "fetch w src st")
  from fetch_trace [OF f] obtain evs where evs:
    "trace st0 = trace st @ Session_created (sessions_made st) # evs"
    "list_all (fetch_event (sessions_made st) src) evs"
    "sessions_made st0 = Suc (sessions_made st)"
    "consistent w st \<longrightarrow> consistent w st0"
    by blast
  show ?thesis
  proof (cases x)
    case (Inl e)
    with assms f have "r = Inl e" "st1 = st0" by (auto simp: scrape_body_def)
    with evs show ?thesis
      by (intro exI [of _ evs] exI [of _ "[]"]) auto
  next
    case (Inr resp)
    show ?thesis
    proof (cases "parse w (content resp)")
      case (Inl e)
      with Inr assms f have "r = Inl e" "st1 = st0" by (auto simp: scrape_body_def)
      with evs show ?thesis
        by (intro exI [of _ evs] exI [of _ "[]"]) auto
    next
      case pr: (Inr soup)
      with Inr assms f have
        "extract_loop w src mh (select_elements w soup src)
           \<lparr>count = 0, processed_titles = {}, headlines = []\<rparr> st0 = (r, st1)"
        by (auto simp: scrape_body_def extract_all_def)
      from extract_loop_trace [OF this] obtain hs where
        "trace st1 = trace st0 @ map Headline_found hs"
        "\<forall>hs'. r = Inr hs' \<longrightarrow> hs' = hs"
        "distinct (map title hs)"
        "sessions_made st1 = sessions_made st0"
        "consistent w st0 \<longrightarrow> consistent w st1"
        by auto
      with evs show ?thesis
        by (intro exI [of _ evs] exI [of _ hs]) auto
    qed
  qed
qed

lemma scrape_source_trace:
  assumes "scrape_source w mh src st = (r, st1)"
  shows "\<exists>evs hs. trace st1 = trace st @ Session_created (sessions_made st) # evs
                     @ map Headline_found hs
           \<and> list_all (fetch_event (sessions_made st) src) evs
           \<and> (\<forall>hs'. r = Inr hs' \<longrightarrow> hs' = hs)
           \<and> distinct (map title hs)
           \<and> sessions_made st1 = Suc (sessions_made st)
           \<and> (consistent w st \<longrightarrow> consistent w st1)"
proof -
  obtain x st0 where b: "scrape_body w mh src st = (x, st0)"
    by (cases "scrape_body w mh src st")
  from assms b have "st1 = st0" "\<And>hs'. r = Inr hs' \<Longrightarrow> x = Inr hs'"
    by (auto simp: scrape_source_def split: sum.splits exn.splits)
  with scrape_body_trace [OF b] show ?thesis by blast
qed


lemma quiet_fetch_event: "fetch_event n src e \<Longrightarrow> quiet e"
  by (cases e) (simp_all add: quiet_def is_outcome_def)

lemma quiet_block:
  "list_all (fetch_event n src) evs \<Longrightarrow>
     list_all quiet (Session_created n # evs @ map Headline_found hs)"
proof -
  assume "list_all (fetch_event n src) evs"
  then have "list_all quiet evs"
    by (auto simp: list_all_iff intro: quiet_fetch_event)
  moreover have "list_all quiet (map Headline_found hs)"
    by (induction hs) (simp_all add: quiet_def is_outcome_def)
  ultimately show ?thesis
    by (simp add: quiet_def is_outcome_def)
qed

lemma found_fetch_events: "list_all (fetch_event n src) evs \<Longrightarrow> found evs = []"
proof (induction evs)
  case Nil
  then show ?case by (simp add: found_def)
next
  case (Cons e evs)
  then show ?case by (cases e) (simp_all add: found_def)
qed

lemma found_block:
  "list_all (fetch_event n src) evs \<Longrightarrow>
     found (Session_created n # evs @ map Headline_found hs) = hs"
  using found_append [of "[Session_created n]" "evs @ map Headline_found hs"]
  by (simp add: found_fetch_events) (simp add: found_def)

lemma run_loop_shape:
  "run_loop w mh tot i srcs all st = (all', st') \<Longrightarrow>
     \<exists>evs hs k. trace st' = trace st @ evs \<and> all' = all @ hs \<and> run_shape tot i evs hs k
       \<and> k \<le> length srcs
       \<and> (consistent w st \<longrightarrow> consistent w st')
       \<and> (consistent w st \<and> stop_after w = None \<longrightarrow> k = length srcs)"
proof (induction srcs arbitrary: i all st)
  case Nil
  then show ?case
    by (intro exI [of _ "[]"] exI [of _ "0::nat"]) (auto intro: run_shape.none)
next
  case (Cons src rest)
  show ?case
  proof (cases "is_running st")
    case False
    with Cons.prems have "all' = all" "st' = st" by auto
    moreover from False have "\<not> (consistent w st \<and> stop_after w = None)"
      by (auto simp: consistent_def)
    ultimately show ?thesis
      by (intro exI [of _ "[]"] exI [of _ "0::nat"]) (auto intro: run_shape.none)
  next
    case True
    obtain r st1 where sc: "scrape_source w mh src st = (r, st1)"
      by (cases "scrape_source w mh src st")
    from scrape_source_trace [OF sc] obtain fs hs where blk:
      "trace st1 = trace st @ Session_created (sessions_made st) # fs @ map Headline_found hs"
      "list_all (fetch_event (sessions_made st) src) fs"
      "\<forall>hs'. r = Inr hs' \<longrightarrow> hs' = hs"
      "consistent w st \<longrightarrow> consistent w st1"
      by blast
    let ?B = "Session_created (sessions_made st) # fs @ map Headline_found hs"
    have qB: "list_all quiet ?B" using blk(2) by (rule quiet_block)
    have fB: "found ?B = hs" using blk(2) by (rule found_block)
    show ?thesis
    proof (cases r)
      case (Inr hs0)
      with blk(3) have hs0: "hs0 = hs" by simp
      let ?st2 = "sleep w 500 (emit w (Progress_update (percent (i + 1) tot)) st1)"
      from True sc Inr hs0 Cons.prems have
        "run_loop w mh tot (Suc i) rest (all @ hs) ?st2 = (all', st')" by simp
      from Cons.IH [OF this] obtain evs hs' k where ih:
        "trace st' = trace ?st2 @ evs" "all' = (all @ hs) @ hs'"
        "run_shape tot (Suc i) evs hs' k" "k \<le> length rest"
        "consistent w ?st2 \<longrightarrow> consistent w st'"
        "consistent w ?st2 \<and> stop_after w = None \<longrightarrow> k = length rest"
        by blast
      have sh: "run_shape tot i (?B @ Progress_update (percent (i + 1) tot) # Sleep 500 # evs)
                  (found ?B @ hs') (Suc k)"
        using qB ih(3) by (rule run_shape.succeeded)
      show ?thesis
        using ih blk(1,4) sh unfolding fB
        by (intro exI [of _ "?B @ Progress_update (percent (i + 1) tot) # Sleep 500 # evs"]
                  exI [of _ "hs @ hs'"] exI [of _ "Suc k"])
           (simp add: sleep_def)
    next
      case (Inl msg)
      let ?e = "Error_occurred (''Error scraping '' @ name src @ '': '' @ msg)"
      let ?st2 = "emit w ?e st1"
      from True sc Inl Cons.prems have
        "run_loop w mh tot (Suc i) rest all ?st2 = (all', st')" by simp
      from Cons.IH [OF this] obtain evs hs' k where ih:
        "trace st' = trace ?st2 @ evs" "all' = all @ hs'"
        "run_shape tot (Suc i) evs hs' k" "k \<le> length rest"
        "consistent w ?st2 \<longrightarrow> consistent w st'"
        "consistent w ?st2 \<and> stop_after w = None \<longrightarrow> k = length rest"
        by blast
      have sh: "run_shape tot i (?B @ ?e # evs) hs' (Suc k)"
        using qB ih(3) by (rule run_shape.failed)
      show ?thesis
        using ih blk(1,4) sh
        by (intro exI [of _ "?B @ ?e # evs"] exI [of _ "hs'"] exI [of _ "Suc k"]) simp
    qed
  qed
qed

lemma filter_outcome_quiet: "list_all quiet evs \<Longrightarrow> filter is_outcome evs = []"
  by (induction evs) (auto simp: quiet_def)

lemma run_shape_outcomes:
  "run_shape tot i evs hs k \<Longrightarrow>
     length (filter is_outcome evs) = k
     \<and> (\<forall>j<k. is_error (filter is_outcome evs ! j)
              \<or> filter is_outcome evs ! j = Progress_update (percent (i + j + 1) tot))"
proof (induction rule: run_shape.induct)
  case (none i)
  then show ?case by simp
next
  case (succeeded evs i rest hs' k)
  have f: "filter is_outcome (evs @ Progress_update (percent (i + 1) tot) # Sleep 500 # rest)
             = Progress_update (percent (i + 1) tot) # filter is_outcome rest"
    using succeeded.hyps(1) by (simp add: filter_outcome_quiet is_outcome_def)
  show ?case unfolding f using succeeded.IH
    by (auto simp: nth_Cons split: nat.splits)
next
  case (failed evs i rest hs' k msg)
  have f: "filter is_outcome (evs @ Error_occurred msg # rest)
             = Error_occurred msg # filter is_outcome rest"
    using failed.hyps(1) by (simp add: filter_outcome_quiet is_outcome_def)
  show ?case unfolding f using failed.IH
    by (auto simp: nth_Cons split: nat.splits)
qed

lemma kept_quiet:
  "list_all quiet evs \<Longrightarrow> foldl kept_step (d, p) evs = (d, p @ found evs)"
proof (induction evs arbitrary: p)
  case Nil
  then show ?case by (simp add: found_def)
next
  case (Cons e evs)
  then show ?case
    by (cases e) (simp_all add: found_def quiet_def is_outcome_def)
qed

lemma run_shape_kept:
  "run_shape tot i evs hs k \<Longrightarrow> foldl kept_step (d, []) evs = (d @ hs, [])"
proof (induction arbitrary: d rule: run_shape.induct)
  case (none i)
  then show ?case by simp
next
  case (succeeded evs i rest hs' k)
  then show ?case by (simp add: kept_quiet)
next
  case (failed evs i rest hs' k msg)
  then show ?case by (simp add: kept_quiet)
qed

lemma run_shape_not_finished:
  "run_shape tot i evs hs k \<Longrightarrow> list_all (\<lambda>e. \<not> is_finished e) evs"
  by (induction rule: run_shape.induct) (auto simp: list_all_iff quiet_def)

section \<open>Computations for the concrete runs\<close>

lemma percent_numerals:
  "percent 1 1 = 100" "percent 1 2 = 50" "percent 2 2 = 100"
  "percent 1 3 = 33" "percent 2 3 = 66" "percent 3 3 = 100"
  by (simp_all add: percent_def fl_def floor_log2_def rne_def bit_length.simps)

lemma percent_values:
  "percent (Suc 0) (Suc 0) = 100"
  "percent (Suc 0) (Suc (Suc 0)) = 50"
  "percent (Suc (Suc 0)) (Suc (Suc 0)) = 100"
  "percent (Suc 0) (Suc (Suc (Suc 0))) = 33"
  "percent (Suc (Suc 0)) (Suc (Suc (Suc 0))) = 66"
  "percent (Suc (Suc (Suc 0))) (Suc (Suc (Suc 0))) = 100"
  using percent_numerals by (simp_all only: numeral_2_eq_2 numeral_3_eq_3 One_nat_def)

lemma not_special_markets:
  "\<not> contains ''https://markets.example.com/news'' ''indianexpress.com''"
  "\<not> contains ''https://markets.example.com/news'' ''timesofindia.indiatimes.com''"
  by code_simp+

lemma not_special_storm:
  "\<not> contains ''https://example.com/news'' ''indianexpress.com''"
  "\<not> contains ''https://example.com/news'' ''timesofindia.indiatimes.com''"
  by code_simp+

lemma not_special_budget:
  "\<not> contains ''https://capitol.example.com/'' ''indianexpress.com''"
  "\<not> contains ''https://capitol.example.com/'' ''timesofindia.indiatimes.com''"
  by code_simp+

lemma special_times:
  "contains ''https://timesofindia.indiatimes.com/'' ''timesofindia.indiatimes.com''"
  by code_simp

lemma titles_markets:
  "join '' '' (split (extract_title (Tag ''h2'' [] [Inl ''  Markets rally   as inflation cools  ''])))
     = ''Markets rally as inflation cools''"
  "join '' '' (split (extract_title (Tag ''h2'' [] [Inl ''Breaking news today!''])))
     = ''Breaking news today!''"
  "join '' '' (split (extract_title (Tag ''h2'' [] [Inl ''Markets rally as inflation cools''])))
     = ''Markets rally as inflation cools''"
  by code_simp+

lemma titles_storm:
  "join '' '' (split (extract_title (Tag ''h2'' []
        [Inr (Tag ''a'' [(''href'', ''/world/story-1'')]
           [Inl ''Breaking: storm hits the northern coast!''])])))
     = ''Breaking: storm hits the northern coast!''"
  by code_simp

lemma titles_budget:
  "join '' '' (split (extract_title (Tag ''h2'' [] [Inl ''Lawmakers pass the annual budget bill''])))
     = ''Lawmakers pass the annual budget bill''"
  "join '' '' (split (extract_title (Tag ''h2'' []
        [Inr (Tag ''a'' [(''href'', ''//['')] [Inl ''Senate schedules a vote on the treaty''])])))
     = ''Senate schedules a vote on the treaty''"
  by code_simp+

lemma patterns:
  "list_ex (\<lambda>pattern. contains (lower ''Breaking news today!'') (lower pattern)) skip_patterns"
  "\<not> list_ex (\<lambda>pattern. contains (lower ''Markets rally as inflation cools'') (lower pattern))
       skip_patterns"
  "list_ex (\<lambda>pattern. contains (lower ''Breaking: storm hits the northern coast!'')
       (lower pattern)) skip_patterns"
  "\<not> list_ex (\<lambda>pattern. contains (lower ''Lawmakers pass the annual budget bill'')
       (lower pattern)) skip_patterns"
  "\<not> list_ex (\<lambda>pattern. contains (lower ''Senate schedules a vote on the treaty'')
       (lower pattern)) skip_patterns"
  by code_simp+

lemma urljoin_values:
  "py_urljoin (\<lambda>host. None) ''https://example.com/news'' ''/world/story-1''
     = Inr ''https://example.com/world/story-1''"
  "py_urljoin (\<lambda>host. None) ''https://capitol.example.com/'' ''//[''
     = Inl (Exception ''Invalid IPv6 URL'')"
  by code_simp+

lemma timeout_message:
  "\<not> contains ''HTTPSConnectionPool(host=capitol.example.com, port=443): Read timed out. (read timeout=10)'' ''403''"
  "\<not> contains ''HTTPSConnectionPool(host=capitol.example.com, port=443): Read timed out. (read timeout=10)'' ''Forbidden''"
  "contains (lower ''HTTPSConnectionPool(host=capitol.example.com, port=443): Read timed out. (read timeout=10)'') ''timeout''"
  by code_simp+

lemmas plumbing = run_def init_def stop_def sleep_def scrape_source_def scrape_body_def
  fetch_def new_session_def session_get_def parse_def select_elements_def extract_all_def
  world_def served_def refused_def lxml_pages_def select_by_name_def clock_seconds_def
  src_markets_def src_storm_def src_budget_def src_times_def
  page_markets_def page_storm_def page_budget_def
  find_link_def find_tag_def make_absolute_def link_or_def
  raise_for_status_def ok_def Let_def show_nat.simps

lemmas computed = percent_values not_special_markets not_special_storm not_special_budget
  special_times titles_markets titles_storm titles_budget patterns urljoin_values
  timeout_message

lemma range_3: "[0..<3] = [0, 1, 2]"
  by (simp add: upt_rec)

lemma extract_all_events:
  assumes "extract_all w src mh elements st = (r, st')"
  shows "\<exists>hs. drop (length (trace st)) (trace st') = map Headline_found hs
           \<and> distinct (map title hs) \<and> (\<forall>hs'. r = Inr hs' \<longrightarrow> hs' = hs)"
proof -
  from assms have "extract_loop w src mh elements
      \<lparr>count = 0, processed_titles = {}, headlines = []\<rparr> st = (r, st')"
    by (simp add: extract_all_def)
  from extract_loop_trace [OF this] show ?thesis by auto
qed

section \<open>One step of the extraction loop\<close>

lemma extract_loop_full:
  "mh \<le> count ls \<Longrightarrow>
     extract_loop w src mh (element # rest) ls st = (Inr (headlines ls), st)"
  by simp

lemma extract_loop_discard:
  "\<not> mh \<le> count ls \<Longrightarrow> discarded (processed_titles ls) element \<Longrightarrow>
     extract_loop w src mh (element # rest) ls st = extract_loop w src mh rest ls st"
  by (auto simp: discarded_def Let_def)

lemma extract_loop_raise:
  "\<not> mh \<le> count ls \<Longrightarrow> \<not> discarded (processed_titles ls) element \<Longrightarrow>
   make_absolute w src (find_link element) = Inl e \<Longrightarrow>
     extract_loop w src mh (element # rest) ls st = (Inl e, st)"
  by (auto simp: discarded_def Let_def)

lemma extract_loop_accept:
  "\<not> mh \<le> count ls \<Longrightarrow> \<not> discarded (processed_titles ls) element \<Longrightarrow>
   make_absolute w src (find_link element) = Inr link \<Longrightarrow>
     extract_loop w src mh (element # rest) ls st
       = extract_loop w src mh rest
           (ls\<lparr>count := count ls + 1,
               processed_titles := insert (join '' '' (split (extract_title element)))
                                     (processed_titles ls),
               headlines := headlines ls @ [accepted w src element link st]\<rparr>)
           (emit w (Headline_found (accepted w src element link st))
              (st\<lparr>clock_reads := Suc (clock_reads st)\<rparr>))"
  by (auto simp: discarded_def accepted_def Let_def)

lemma make_absolute_urljoin:
  "urljoin w1 = urljoin w2 \<Longrightarrow> make_absolute w1 src link = make_absolute w2 src link"
  by (simp add: make_absolute_def split: option.splits)

lemma extract_loop_untimed:
  "urljoin w1 = urljoin w2 \<Longrightarrow> count ls1 = count ls2 \<Longrightarrow>
   processed_titles ls1 = processed_titles ls2 \<Longrightarrow>
   map untimed (headlines ls1) = map untimed (headlines ls2) \<Longrightarrow>
     map_sum id (map untimed) (fst (extract_loop w1 src mh els ls1 st1))
       = map_sum id (map untimed) (fst (extract_loop w2 src mh els ls2 st2))"
proof (induction els arbitrary: ls1 ls2 st1 st2)
  case Nil
  then show ?case by simp
next
  case (Cons element rest)
  note ma = make_absolute_urljoin [OF Cons.prems(1), of src "find_link element"]
  show ?case
  proof (cases "mh \<le> count ls2")
    case True
    with Cons.prems show ?thesis by (simp add: extract_loop_full)
  next
    case more: False
    show ?thesis
    proof (cases "discarded (processed_titles ls2) element")
      case True
      have d1: "extract_loop w1 src mh (element # rest) ls1 st1
                  = extract_loop w1 src mh rest ls1 st1"
        using True more Cons.prems by (intro extract_loop_discard) simp_all
      have d2: "extract_loop w2 src mh (element # rest) ls2 st2
                  = extract_loop w2 src mh rest ls2 st2"
        using True more by (intro extract_loop_discard) simp_all
      from Cons.IH [OF Cons.prems] show ?thesis by (simp only: d1 d2)
    next
      case keep: False
      show ?thesis
      proof (cases "make_absolute w2 src (find_link element)")
        case (Inl e)
        with more keep Cons.prems ma show ?thesis
          by (simp add: extract_loop_raise del: extract_loop.simps)
      next
        case (Inr link)
        let ?t = "join '' '' (split (extract_title element))"
        let ?h1 = "accepted w1 src element link st1"
        let ?h2 = "accepted w2 src element link st2"
        let ?ls1 = "ls1\<lparr>count := count ls1 + 1,
                        processed_titles := insert ?t (processed_titles ls1),
                        headlines := headlines ls1 @ [?h1]\<rparr>"
        let ?ls2 = "ls2\<lparr>count := count ls2 + 1,
                        processed_titles := insert ?t (processed_titles ls2),
                        headlines := headlines ls2 @ [?h2]\<rparr>"
        let ?s1 = "emit w1 (Headline_found ?h1) (st1\<lparr>clock_reads := Suc (clock_reads st1)\<rparr>)"
        let ?s2 = "emit w2 (Headline_found ?h2) (st2\<lparr>clock_reads := Suc (clock_reads st2)\<rparr>)"
        have e1: "extract_loop w1 src mh (element # rest) ls1 st1
                    = extract_loop w1 src mh rest ?ls1 ?s1"
          using more keep Inr Cons.prems ma by (intro extract_loop_accept) simp_all
        have e2: "extract_loop w2 src mh (element # rest) ls2 st2
                    = extract_loop w2 src mh rest ?ls2 ?s2"
          using more keep Inr by (intro extract_loop_accept) simp_all
        have "map_sum id (map untimed) (fst (extract_loop w1 src mh rest ?ls1 ?s1))
                = map_sum id (map untimed) (fst (extract_loop w2 src mh rest ?ls2 ?s2))"
          using Cons.prems by (intro Cons.IH) (simp_all add: untimed_def accepted_def)
        then show ?thesis by (simp only: e1 e2)
      qed
    qed
  qed
qed

lemma extract_loop_same_clock:
  "urljoin w1 = urljoin w2 \<Longrightarrow> count ls1 = count ls2 \<Longrightarrow>
   processed_titles ls1 = processed_titles ls2 \<Longrightarrow>
   headlines ls1 = headlines ls2 \<Longrightarrow>
   (\<And>k. now w1 (clock_reads st1 + k) = now w2 (clock_reads st2 + k)) \<Longrightarrow>
     fst (extract_loop w1 src mh els ls1 st1) = fst (extract_loop w2 src mh els ls2 st2)"
proof (induction els arbitrary: ls1 ls2 st1 st2)
  case Nil
  then show ?case by simp
next
  case (Cons element rest)
  note ma = make_absolute_urljoin [OF Cons.prems(1), of src "find_link element"]
  show ?case
  proof (cases "mh \<le> count ls2")
    case True
    with Cons.prems(2,4) show ?thesis by (simp add: extract_loop_full)
  next
    case more: False
    show ?thesis
    proof (cases "discarded (processed_titles ls2) element")
      case True
      have "fst (extract_loop w1 src mh rest ls1 st1) = fst (extract_loop w2 src mh rest ls2 st2)"
        using Cons.prems by (intro Cons.IH) simp_all
      moreover have "extract_loop w1 src mh (element # rest) ls1 st1
                  = extract_loop w1 src mh rest ls1 st1"
        using True more Cons.prems by (intro extract_loop_discard) simp_all
      moreover have "extract_loop w2 src mh (element # rest) ls2 st2
                  = extract_loop w2 src mh rest ls2 st2"
        using True more by (intro extract_loop_discard) simp_all
      ultimately show ?thesis by (simp only:)
    next
      case keep: False
      show ?thesis
      proof (cases "make_absolute w2 src (find_link element)")
        case (Inl e)
        with more keep Cons.prems(2,3) ma show ?thesis
          by (simp add: extract_loop_raise del: extract_loop.simps)
      next
        case (Inr link)
        let ?t = "join '' '' (split (extract_title element))"
        let ?h1 = "accepted w1 src element link st1"
        let ?h2 = "accepted w2 src element link st2"
        let ?ls1 = "ls1\<lparr>count := count ls1 + 1,
                        processed_titles := insert ?t (processed_titles ls1),
                        headlines := headlines ls1 @ [?h1]\<rparr>"
        let ?ls2 = "ls2\<lparr>count := count ls2 + 1,
                        processed_titles := insert ?t (processed_titles ls2),
                        headlines := headlines ls2 @ [?h2]\<rparr>"
        let ?s1 = "emit w1 (Headline_found ?h1) (st1\<lparr>clock_reads := Suc (clock_reads st1)\<rparr>)"
        let ?s2 = "emit w2 (Headline_found ?h2) (st2\<lparr>clock_reads := Suc (clock_reads st2)\<rparr>)"
        have e1: "extract_loop w1 src mh (element # rest) ls1 st1
                    = extract_loop w1 src mh rest ?ls1 ?s1"
          using more keep Inr Cons.prems(2,3) ma by (intro extract_loop_accept) simp_all
        have e2: "extract_loop w2 src mh (element # rest) ls2 st2
                    = extract_loop w2 src mh rest ?ls2 ?s2"
          using more keep Inr by (intro extract_loop_accept) simp_all
        have h: "?h1 = ?h2"
          using Cons.prems(5) [of 0] by (simp add: accepted_def)
        have "now w1 (clock_reads ?s1 + k) = now w2 (clock_reads ?s2 + k)" for k
          using Cons.prems(5) [of "Suc k"] by simp
        then have "fst (extract_loop w1 src mh rest ?ls1 ?s1)
                     = fst (extract_loop w2 src mh rest ?ls2 ?s2)"
          using Cons.prems(1-4) h by (intro Cons.IH) simp_all
        then show ?thesis by (simp only: e1 e2)
      qed
    qed
  qed
qed





lemma fetch_event_session:
  "fetch_event n src e \<Longrightarrow>
     \<not> is_session_created e
     \<and> (is_http_get e \<longrightarrow> session_of e = Some n \<and> url_of e = Some (news_source.url src)
           \<and> header_of ''Referer'' e = Some (referer src))"
  by (cases e) simp_all

section \<open>Where a pipeline can start\<close>

lemma starts_before_append:
  "starts_before k off (xs @ ys)
     = (starts_before k off xs \<and> starts_before k (off + length xs) ys)"
  by (induction xs arbitrary: off) auto

lemma starts_before_none:
  "list_all (\<lambda>e. \<not> is_session_created e) es \<Longrightarrow> starts_before k off es"
  by (induction es arbitrary: off) auto

lemma starts_before_nth:
  "starts_before k off es \<Longrightarrow> j < length es \<Longrightarrow> is_session_created (es ! j) \<Longrightarrow> off + j < k"
proof (induction es arbitrary: off j)
  case Nil
  then show ?case by simp
next
  case (Cons e es)
  show ?case
  proof (cases j)
    case 0
    with Cons.prems show ?thesis by simp
  next
    case (Suc j')
    with Cons.prems Cons.IH [of "Suc off" j'] show ?thesis by simp
  qed
qed

lemma fetch_event_no_start: "fetch_event n src e \<Longrightarrow> \<not> is_session_created e"
  by (cases e) simp_all

lemma block_no_start:
  "list_all (fetch_event n src) fs \<Longrightarrow>
     list_all (\<lambda>e. \<not> is_session_created e) (fs @ map Headline_found hs)"
  by (auto simp: list_all_iff dest: fetch_event_no_start)

lemma run_loop_starts:
  "consistent w st \<Longrightarrow> stop_after w = Some k \<Longrightarrow>
   run_loop w mh n i srcs all st = (all', st') \<Longrightarrow>
     \<exists>evs. trace st' = trace st @ evs \<and> starts_before k (length (trace st)) evs"
proof (induction srcs arbitrary: i all st)
  case Nil
  then show ?case by simp
next
  case (Cons src rest)
  show ?case
  proof (cases "is_running st")
    case False
    with Cons.prems show ?thesis by simp
  next
    case True
    with Cons.prems(1,2) have here: "length (trace st) < k" by (simp add: consistent_def)
    obtain r st1 where sc: "scrape_source w mh src st = (r, st1)"
      by (cases "scrape_source w mh src st")
    from scrape_source_trace [OF sc] Cons.prems(1) obtain fs hs where blk:
      "trace st1 = trace st @ Session_created (sessions_made st) # fs @ map Headline_found hs"
      "list_all (fetch_event (sessions_made st) src) fs"
      "consistent w st1"
      by blast
    let ?B = "Session_created (sessions_made st) # fs @ map Headline_found hs"
    have sB: "starts_before k (length (trace st)) ?B"
      using here starts_before_none [OF block_no_start [OF blk(2)]] by simp
    obtain st2 tail where st2:
      "run_loop w mh n i (src # rest) all st = run_loop w mh n (Suc i) rest
         (case r of Inl msg \<Rightarrow> all | Inr hs' \<Rightarrow> all @ hs') st2"
      "trace st2 = trace st1 @ tail" "list_all (\<lambda>e. \<not> is_session_created e) tail"
      "consistent w st2"
    proof (cases r)
      case (Inl msg)
      show ?thesis
        by (rule that [of "emit w (Error_occurred (''Error scraping '' @ name src @ '': '' @ msg)) st1"
                         "[Error_occurred (''Error scraping '' @ name src @ '': '' @ msg)]"])
           (use True sc Inl blk(3) in simp_all)
    next
      case (Inr hs')
      show ?thesis
        by (rule that [of "sleep w 500 (emit w (Progress_update (percent (i + 1) n)) st1)"
                         "[Progress_update (percent (i + 1) n), Sleep 500]"])
           (use True sc Inr blk(3) in \<open>simp_all add: sleep_def\<close>)
    qed
    from Cons.prems(3) st2(1) have
      "run_loop w mh n (Suc i) rest (case r of Inl msg \<Rightarrow> all | Inr hs' \<Rightarrow> all @ hs') st2
         = (all', st')" by simp
    from Cons.IH [OF st2(4) Cons.prems(2) this] obtain evs where ih:
      "trace st' = trace st2 @ evs" "starts_before k (length (trace st2)) evs"
      by blast
    show ?thesis
      using ih sB blk(1) st2(2) starts_before_none [OF st2(3), of k "length (trace st) + length ?B"]
      by (intro exI [of _ "?B @ tail @ evs"]) (simp add: starts_before_append add.assoc)
  qed
qed


section \<open>Records emitted and records kept\<close>

lemma found_Cons:
  "found (Progress_update p # es) = found es" "found (Sleep ms # es) = found es"
  "found (Error_occurred m # es) = found es"
  by (simp_all add: found_def)

lemma run_shape_found:
  "run_shape n i evs hs k \<Longrightarrow>
     subseq hs (found evs) \<and> (list_all (\<lambda>e. \<not> is_error e) evs \<longrightarrow> hs = found evs)"
proof (induction rule: run_shape.induct)
  case (none i)
  then show ?case by (simp add: found_def)
next
  case (succeeded evs i rest hs' k)
  then show ?case
    by (auto simp: found_Cons intro: list_emb_append_mono)
next
  case (failed evs i rest hs' k msg)
  then show ?case
    by (auto simp: found_Cons intro: list_emb_append2)
qed

section \<open>The claims\<close>

text \<open>
  C1. An error raised while one source is processed is caught: the events of that source
  end with exactly one error event, which names the source, no progress event is emitted
  for it, the aggregate is unchanged and the loop goes on with the next source. When
  nobody cancels, every source of the list is taken to its outcome and the run ends with
  the terminal event.
\<close>

theorem source_error_is_caught:
  "(is_running st \<and> scrape_source w mh src st = (Inl msg, st1) \<longrightarrow>
      (\<exists>st2. run_loop w mh n i (src # rest) all st = run_loop w mh n (Suc i) rest all st2
         \<and> filter is_outcome (drop (length (trace st)) (trace st2))
             = [Error_occurred (''Error scraping '' @ name src @ '': '' @ msg)]))
   \<and> (stop_after w = None \<longrightarrow>
        length (filter is_outcome (trace (run w sources mh))) = length sources
        \<and> (\<exists>evs all'. trace (run w sources mh) = evs @ [Finished_scraping all']))"
proof (intro conjI impI)
  assume a: "is_running st \<and> scrape_source w mh src st = (Inl msg, st1)"
  let ?e = "Error_occurred (''Error scraping '' @ name src @ '': '' @ msg)"
  from a scrape_source_trace [of w mh src st "Inl msg" st1] obtain fs hs where blk:
    "trace st1 = trace st @ Session_created (sessions_made st) # fs @ map Headline_found hs"
    "list_all (fetch_event (sessions_made st) src) fs"
    by blast
  have "filter is_outcome (Session_created (sessions_made st) # fs @ map Headline_found hs) = []"
    using quiet_block [OF blk(2)] by (rule filter_outcome_quiet)
  then have "filter is_outcome (drop (length (trace st)) (trace (emit w ?e st1))) = [?e]"
    using blk(1) by (simp add: is_outcome_def)
  moreover from a have
    "run_loop w mh n i (src # rest) all st = run_loop w mh n (Suc i) rest all (emit w ?e st1)"
    by simp
  ultimately show "\<exists>st2. run_loop w mh n i (src # rest) all st
                       = run_loop w mh n (Suc i) rest all st2
       \<and> filter is_outcome (drop (length (trace st)) (trace st2)) = [?e]"
    by blast
next
  assume nc: "stop_after w = None"
  obtain all' st' where rl:
    "run_loop w mh (length sources) 0 sources [] (init w) = (all', st')"
    by (cases "run_loop w mh (length sources) 0 sources [] (init w)")
  from run_loop_shape [OF rl] consistent_init [of w] nc obtain evs hs where sh:
    "trace st' = trace (init w) @ evs" "run_shape (length sources) 0 evs hs (length sources)"
    by blast
  have t0: "trace (init w) = []" by (simp add: init_def stop_def Let_def)
  have tr: "trace (run w sources mh) = evs @ [Finished_scraping all']"
    using rl sh(1) t0 by (simp add: run_def)
  from run_shape_outcomes [OF sh(2)] have "length (filter is_outcome evs) = length sources"
    by simp
  with tr show "length (filter is_outcome (trace (run w sources mh))) = length sources"
    by (simp add: is_outcome_def)
  from tr show "\<exists>evs all'. trace (run w sources mh) = evs @ [Finished_scraping all']"
    by blast
qed

theorem source_error_is_caught_witness:
  "stop_after (world net_timeout None) = None
   \<and> length (filter is_outcome
        (trace (run (world net_timeout None) [src_markets, src_budget, src_storm] 50))) = 3
   \<and> filter is_error
        (trace (run (world net_timeout None) [src_markets, src_budget, src_storm] 50))
       = [Error_occurred ''Error scraping Capitol Post: Timeout connecting to Capitol Post. The website may be slow or unreachable.'']
   \<and> filter is_finished
        (trace (run (world net_timeout None) [src_markets, src_budget, src_storm] 50))
       = [Finished_scraping
           [\<lparr>title = ''Markets rally as inflation cools'',
             url = ''https://markets.example.com/news'',
             source = ''Markets Daily'', timestamp = ''2024-05-01 12:00:00''\<rparr>,
            \<lparr>title = ''Breaking: storm hits the northern coast!'',
             url = ''https://example.com/world/story-1'',
             source = ''Weather Wire'', timestamp = ''2024-05-01 12:00:01''\<rparr>]]"
proof -
  have nc: "stop_after (world net_timeout None) = None" by (simp add: world_def)
  have tr: "filter (\<lambda>e. is_error e \<or> is_finished e)
        (trace (run (world net_timeout None) [src_markets, src_budget, src_storm] 50))
       = [Error_occurred ''Error scraping Capitol Post: Timeout connecting to Capitol Post. The website may be slow or unreachable.'',
          Finished_scraping
           [\<lparr>title = ''Markets rally as inflation cools'',
             url = ''https://markets.example.com/news'',
             source = ''Markets Daily'', timestamp = ''2024-05-01 12:00:00''\<rparr>,
            \<lparr>title = ''Breaking: storm hits the northern coast!'',
             url = ''https://example.com/world/story-1'',
             source = ''Weather Wire'', timestamp = ''2024-05-01 12:00:01''\<rparr>]]"
    by (simp add: plumbing computed net_timeout_def)
  have e: "filter is_error (filter (\<lambda>e. is_error e \<or> is_finished e) tr') = filter is_error tr'"
    and f: "filter is_finished (filter (\<lambda>e. is_error e \<or> is_finished e) tr') = filter is_finished tr'"
    for tr' by (induction tr') auto
  from source_error_is_caught
         [where w = "world net_timeout None" and mh = 50
            and sources = "[src_markets, src_budget, src_storm]"]
       nc
  have "length (filter is_outcome
          (trace (run (world net_timeout None) [src_markets, src_budget, src_storm] 50))) = 3"
    by simp
  with nc e [symmetric, of "trace (run (world net_timeout None) [src_markets, src_budget, src_storm] 50)"]
       f [symmetric, of "trace (run (world net_timeout None) [src_markets, src_budget, src_storm] 50)"]
  show ?thesis unfolding tr by simp
qed

text \<open>
  C2. The claim says that a progress event follows every source, failed ones included.
  The signal is emitted inside the \<open>try\<close>, after \<open>scrape_source\<close> has returned: a
  source that fails gets an error event and no progress event, as the run below shows.
\<close>

theorem progress_after_failure_counterexample:
  "filter is_outcome (trace (run (world net_down None) [src_budget] 50))
     = [Error_occurred ''Error scraping Capitol Post: Timeout connecting to Capitol Post. The website may be slow or unreachable.'']"
  by (simp add: plumbing computed net_down_def is_outcome_def)

text \<open>
  C2, as the code has it: a source whose pipeline succeeds is followed by one progress event
  with the value \<open>int((i + 1) / total_sources * 100)\<close>, where \<open>i\<close> is its position in
  the list. So the \<open>j\<close>-th outcome event of a run is an error event or the progress event
  of position \<open>j\<close>: a failed source emits no progress event, and counts in the values
  reported after it.
\<close>

theorem progress_after_success_only:
  "(is_running st \<and> scrape_source w mh src st = (Inr hs, st') \<longrightarrow>
      (\<exists>st2. run_loop w mh n i (src # rest) all st
                = run_loop w mh n (Suc i) rest (all @ hs) st2
         \<and> filter is_outcome (drop (length (trace st)) (trace st2))
             = [Progress_update (percent (i + 1) n)]))
   \<and> length (filter is_outcome (trace (run w sources mh))) \<le> length sources
   \<and> (\<forall>j < length (filter is_outcome (trace (run w sources mh))).
         is_error (filter is_outcome (trace (run w sources mh)) ! j)
         \<or> filter is_outcome (trace (run w sources mh)) ! j
             = Progress_update (percent (j + 1) (length sources)))"
proof (intro conjI impI)
  assume a: "is_running st \<and> scrape_source w mh src st = (Inr hs, st')"
  let ?st2 = "sleep w 500 (emit w (Progress_update (percent (i + 1) n)) st')"
  from a scrape_source_trace [of w mh src st "Inr hs" st'] obtain fs hs' where blk:
    "trace st' = trace st @ Session_created (sessions_made st) # fs @ map Headline_found hs'"
    "list_all (fetch_event (sessions_made st) src) fs"
    by blast
  have "filter is_outcome (Session_created (sessions_made st) # fs @ map Headline_found hs') = []"
    using quiet_block [OF blk(2)] by (rule filter_outcome_quiet)
  then have "filter is_outcome (drop (length (trace st)) (trace ?st2))
               = [Progress_update (percent (i + 1) n)]"
    using blk(1) by (simp add: is_outcome_def sleep_def)
  moreover from a have
    "run_loop w mh n i (src # rest) all st = run_loop w mh n (Suc i) rest (all @ hs) ?st2"
    by simp
  ultimately show "\<exists>st2. run_loop w mh n i (src # rest) all st
                       = run_loop w mh n (Suc i) rest (all @ hs) st2
       \<and> filter is_outcome (drop (length (trace st)) (trace st2))
           = [Progress_update (percent (i + 1) n)]"
    by blast
next
  obtain all' st' where rl:
    "run_loop w mh (length sources) 0 sources [] (init w) = (all', st')"
    by (cases "run_loop w mh (length sources) 0 sources [] (init w)")
  from run_loop_shape [OF rl] obtain evs hs k where sh:
    "trace st' = trace (init w) @ evs" "run_shape (length sources) 0 evs hs k"
    "k \<le> length sources"
    by blast
  have t0: "trace (init w) = []" by (simp add: init_def stop_def Let_def)
  have tr: "filter is_outcome (trace (run w sources mh)) = filter is_outcome evs"
    using rl sh(1) t0 by (simp add: run_def is_outcome_def)
  from run_shape_outcomes [OF sh(2)] have os:
    "length (filter is_outcome evs) = k"
    "\<forall>j<k. is_error (filter is_outcome evs ! j)
        \<or> filter is_outcome evs ! j = Progress_update (percent (0 + j + 1) (length sources))"
    by blast+
  from os(1) sh(3) show "length (filter is_outcome (trace (run w sources mh))) \<le> length sources"
    unfolding tr by simp
  from os show "\<forall>j < length (filter is_outcome (trace (run w sources mh))).
         is_error (filter is_outcome (trace (run w sources mh)) ! j)
         \<or> filter is_outcome (trace (run w sources mh)) ! j
             = Progress_update (percent (j + 1) (length sources))"
    unfolding tr by simp
qed

theorem progress_after_success_only_witness:
  "is_running (init (world net_timeout None))
   \<and> fst (scrape_source (world net_timeout None) 50 src_markets (init (world net_timeout None)))
       = Inr [\<lparr>title = ''Markets rally as inflation cools'',
               url = ''https://markets.example.com/news'',
               source = ''Markets Daily'', timestamp = ''2024-05-01 12:00:00''\<rparr>]
   \<and> filter is_outcome
        (trace (run (world net_timeout None) [src_markets, src_budget, src_storm] 50))
       = [Progress_update 33,
          Error_occurred ''Error scraping Capitol Post: Timeout connecting to Capitol Post. The website may be slow or unreachable.'',
          Progress_update 100]
   \<and> (\<exists>st2. run_loop (world net_timeout None) 50 3 0 [src_markets, src_budget, src_storm] []
                (init (world net_timeout None))
              = run_loop (world net_timeout None) 50 3 1 [src_budget, src_storm]
                  [\<lparr>title = ''Markets rally as inflation cools'',
                    url = ''https://markets.example.com/news'',
                    source = ''Markets Daily'', timestamp = ''2024-05-01 12:00:00''\<rparr>] st2
         \<and> filter is_outcome (trace st2) = [Progress_update 33])"
proof -
  let ?w = "world net_timeout None"
  let ?h = "\<lparr>title = ''Markets rally as inflation cools'',
               url = ''https://markets.example.com/news'',
               source = ''Markets Daily'', timestamp = ''2024-05-01 12:00:00''\<rparr>"
  have r: "is_running (init ?w)" by (simp add: init_def world_def)
  have t0: "trace (init ?w) = []" by (simp add: init_def world_def)
  have s: "fst (scrape_source ?w 50 src_markets (init ?w)) = Inr [?h]"
    by (simp add: plumbing computed net_timeout_def)
  then have s': "scrape_source ?w 50 src_markets (init ?w)
                   = (Inr [?h], snd (scrape_source ?w 50 src_markets (init ?w)))"
    by (metis prod.collapse)
  have os: "filter is_outcome (trace (run ?w [src_markets, src_budget, src_storm] 50))
       = [Progress_update 33,
          Error_occurred ''Error scraping Capitol Post: Timeout connecting to Capitol Post. The website may be slow or unreachable.'',
          Progress_update 100]"
    by (simp add: plumbing computed net_timeout_def is_outcome_def)
  from progress_after_success_only
         [where w = ?w and mh = 50 and st = "init ?w" and src = src_markets and hs = "[?h]"
            and st' = "snd (scrape_source ?w 50 src_markets (init ?w))"
            and n = 3 and i = 0 and rest = "[src_budget, src_storm]" and all = "[]"]
       r s'
  have "\<exists>st2. run_loop ?w 50 3 0 [src_markets, src_budget, src_storm] [] (init ?w)
              = run_loop ?w 50 3 1 [src_budget, src_storm] [?h] st2
         \<and> filter is_outcome (trace st2) = [Progress_update 33]"
    using percent_numerals by (simp add: t0)
  with r s os show ?thesis by blast
qed

text \<open>
  C3. An element that the loop reaches (the maximum is not attained) is discarded when its
  normalized title is shorter than 15, or is already in the set of titles seen in this
  pass, or contains a pattern of the blacklist, case-insensitively, and is shorter than 30:
  the loop goes on with its variables unchanged, so nothing is counted. Any other title is
  accepted: unless \<open>urljoin\<close> raises, a record with that title is emitted, counted and
  added to the set. A title of length 20 with the term Breaking is discarded, one of
  length 40 is kept.
\<close>

theorem title_rejection:
  "(count ls < mh
      \<and> (length (join '' '' (split (extract_title element))) < 15
          \<or> join '' '' (split (extract_title element)) \<in> processed_titles ls
          \<or> ((\<exists>pattern \<in> set skip_patterns.
                 contains (lower (join '' '' (split (extract_title element)))) (lower pattern))
              \<and> length (join '' '' (split (extract_title element))) < 30))
      \<longrightarrow> extract_loop w src mh (element # rest) ls st = extract_loop w src mh rest ls st)
   \<and> (count ls < mh
      \<and> \<not> (length (join '' '' (split (extract_title element))) < 15
          \<or> join '' '' (split (extract_title element)) \<in> processed_titles ls
          \<or> ((\<exists>pattern \<in> set skip_patterns.
                 contains (lower (join '' '' (split (extract_title element)))) (lower pattern))
              \<and> length (join '' '' (split (extract_title element))) < 30))
      \<and> make_absolute w src (find_link element) = Inr link
      \<longrightarrow> (\<exists>h. title h = join '' '' (split (extract_title element))
            \<and> extract_loop w src mh (element # rest) ls st
                = extract_loop w src mh rest
                    (ls\<lparr>count := count ls + 1,
                        processed_titles := insert (title h) (processed_titles ls),
                        headlines := headlines ls @ [h]\<rparr>)
                    (emit w (Headline_found h) (st\<lparr>clock_reads := Suc (clock_reads st)\<rparr>))))"
proof (intro conjI impI)
  assume "count ls < mh
      \<and> (length (join '' '' (split (extract_title element))) < 15
          \<or> join '' '' (split (extract_title element)) \<in> processed_titles ls
          \<or> ((\<exists>pattern \<in> set skip_patterns.
                 contains (lower (join '' '' (split (extract_title element)))) (lower pattern))
              \<and> length (join '' '' (split (extract_title element))) < 30))"
  then show "extract_loop w src mh (element # rest) ls st = extract_loop w src mh rest ls st"
    by (auto simp: Let_def list_ex_iff)
next
  let ?t = "join '' '' (split (extract_title element))"
  let ?h = "\<lparr>title = ?t, url = link_or link (news_source.url src), source = name src,
              timestamp = now w (clock_reads st)\<rparr>"
  assume "count ls < mh
      \<and> \<not> (length ?t < 15 \<or> ?t \<in> processed_titles ls
          \<or> ((\<exists>pattern \<in> set skip_patterns. contains (lower ?t) (lower pattern))
              \<and> length ?t < 30))
      \<and> make_absolute w src (find_link element) = Inr link"
  then have "title ?h = ?t \<and> extract_loop w src mh (element # rest) ls st
                = extract_loop w src mh rest
                    (ls\<lparr>count := count ls + 1,
                        processed_titles := insert (title ?h) (processed_titles ls),
                        headlines := headlines ls @ [?h]\<rparr>)
                    (emit w (Headline_found ?h) (st\<lparr>clock_reads := Suc (clock_reads st)\<rparr>))"
    by (auto simp: Let_def list_ex_iff)
  then show "\<exists>h. title h = ?t
            \<and> extract_loop w src mh (element # rest) ls st
                = extract_loop w src mh rest
                    (ls\<lparr>count := count ls + 1,
                        processed_titles := insert (title h) (processed_titles ls),
                        headlines := headlines ls @ [h]\<rparr>)
                    (emit w (Headline_found h) (st\<lparr>clock_reads := Suc (clock_reads st)\<rparr>))"
    by (rule exI)
qed

theorem title_rejection_witness:
  "length ''Breaking news today!'' = 20
   \<and> extract_loop (world net_timeout None) src_markets 50
        [Tag ''h2'' [] [Inl ''Breaking news today!'']] fresh (init (world net_timeout None))
       = (Inr [], init (world net_timeout None))
   \<and> length ''Breaking: storm hits the northern coast!'' = 40
   \<and> fst (extract_loop (world net_timeout None) src_storm 50
        [Tag ''h2'' [] [Inr (Tag ''a'' [(''href'', ''/world/story-1'')]
           [Inl ''Breaking: storm hits the northern coast!''])]] fresh
        (init (world net_timeout None)))
       = Inr [\<lparr>title = ''Breaking: storm hits the northern coast!'',
               url = ''https://example.com/world/story-1'',
               source = ''Weather Wire'', timestamp = ''2024-05-01 12:00:00''\<rparr>]"
proof -
  let ?w = "world net_timeout None"
  let ?e1 = "Tag ''h2'' [] [Inl ''Breaking news today!'']"
  let ?e2 = "Tag ''h2'' [] [Inr (Tag ''a'' [(''href'', ''/world/story-1'')]
           [Inl ''Breaking: storm hits the northern coast!''])]"
  have p1: "\<exists>pattern \<in> set skip_patterns. contains (lower ''Breaking news today!'') (lower pattern)"
    and p2: "\<exists>pattern \<in> set skip_patterns.
               contains (lower ''Breaking: storm hits the northern coast!'') (lower pattern)"
    using patterns(1,3) by (simp_all only: list_ex_iff)
  have l: "make_absolute ?w src_storm (find_link ?e2) = Inr (Some ''https://example.com/world/story-1'')"
    by (simp add: make_absolute_def find_link_def find_tag_def world_def src_storm_def
          urljoin_values)
  from title_rejection [where ls = fresh and mh = 50 and element = ?e1 and w = ?w
         and src = src_markets and rest = "[]" and st = "init ?w"] p1
  have a: "extract_loop ?w src_markets 50 [?e1] fresh (init ?w) = (Inr [], init ?w)"
    by (simp add: fresh_def titles_markets)
  from title_rejection [where ls = fresh and mh = 50 and element = ?e2 and w = ?w
         and src = src_storm and rest = "[]" and st = "init ?w"
         and link = "Some ''https://example.com/world/story-1''"] p2 l
  have "\<exists>h. title h = ''Breaking: storm hits the northern coast!''
          \<and> extract_loop ?w src_storm 50 [?e2] fresh (init ?w)
              = extract_loop ?w src_storm 50 []
                  (fresh\<lparr>count := count fresh + 1,
                      processed_titles := insert (title h) (processed_titles fresh),
                      headlines := headlines fresh @ [h]\<rparr>)
                  (emit ?w (Headline_found h) ((init ?w)\<lparr>clock_reads := Suc (clock_reads (init ?w))\<rparr>))"
    by (simp add: fresh_def titles_storm)
  then have "\<exists>h. title h = ''Breaking: storm hits the northern coast!''
          \<and> fst (extract_loop ?w src_storm 50 [?e2] fresh (init ?w)) = Inr [h]"
    by (auto simp: fresh_def)
  moreover have "fst (extract_loop ?w src_storm 50 [?e2] fresh (init ?w))
       = Inr [\<lparr>title = ''Breaking: storm hits the northern coast!'',
               url = ''https://example.com/world/story-1'',
               source = ''Weather Wire'', timestamp = ''2024-05-01 12:00:00''\<rparr>]"
    by (simp add: fresh_def plumbing computed)
  ultimately show ?thesis using a by simp
qed

text \<open>
  C4. The branch for the two sites with special handling makes at most three requests,
  switches to the alternate User-Agent and sleeps 3 seconds after a 403, sleeps 1 second
  after another status. When all three requests are answered 403, the exception that is
  raised is meant to carry the last status, but a \<open>requests.Response\<close> with a status
  from 400 to 599 is false in Python, so the message says \<open>No response\<close> instead of 403.
\<close>

theorem blocked_status_is_lost:
  "filter is_error (trace (run (world net_forbidden None) [src_times] 50))
     = [Error_occurred ''Error scraping Times of India: Failed to scrape Times of India: Failed to access Times of India after 3 attempts. Status: No response'']
   \<and> length (filter is_http_get (trace (run (world net_forbidden None) [src_times] 50))) = 3
   \<and> concat (map sleep_of (trace (run (world net_forbidden None) [src_times] 50)))
       = [2000, 3000, 3000, 3000]"
  by (simp add: plumbing computed net_forbidden_def range_3)


text \<open>The same site answering 403, 403 and 200: the fetch succeeds with the alternate
  User-Agent from the second request on.\<close>

lemma retry_then_success:
  "map (header_of ''User-Agent'')
       (filter is_http_get (trace (run (world net_retry None) [src_times] 50)))
     = [Some ''Mozilla/5.0 (Windows NT 10.0; Win64; x64) AppleWebKit/537.36 (KHTML, like Gecko) Chrome/121.0.0.0 Safari/537.36'',
        Some alternate_user_agent, Some alternate_user_agent]
   \<and> concat (map sleep_of (trace (run (world net_retry None) [src_times] 50)))
       = [2000, 3000, 3000, 500]
   \<and> filter is_outcome (trace (run (world net_retry None) [src_times] 50))
       = [Progress_update 100]
   \<and> map title (found (trace (run (world net_retry None) [src_times] 50)))
       = [''Markets rally as inflation cools'']"
  by (simp add: plumbing computed net_retry_def range_3 default_headers_def found_def
        is_outcome_def)

text \<open>
  C5. In one extraction pass no two records have the same normalized title: the records
  emitted during the pass, whether it ends normally or with an exception, have pairwise
  distinct titles, and the list that a pass returns is the list of the records it emitted.
\<close>

theorem titles_are_distinct:
  "extract_all w src mh elements st = (r, st') \<longrightarrow>
     distinct (map title (found (drop (length (trace st)) (trace st'))))
     \<and> (\<forall>hs. r = Inr hs \<longrightarrow> hs = found (drop (length (trace st)) (trace st')))"
proof
  assume "extract_all w src mh elements st = (r, st')"
  from extract_all_events [OF this] obtain hs where
    "drop (length (trace st)) (trace st') = map Headline_found hs"
    "distinct (map title hs)" "\<forall>hs'. r = Inr hs' \<longrightarrow> hs' = hs"
    by blast
  then show "distinct (map title (found (drop (length (trace st)) (trace st'))))
     \<and> (\<forall>hs. r = Inr hs \<longrightarrow> hs = found (drop (length (trace st)) (trace st')))"
    by simp
qed

theorem titles_are_distinct_witness:
  "fst (extract_all (world net_timeout None) src_markets 50
         [Tag ''h2'' [] [Inl ''  Markets rally   as inflation cools  ''],
          Tag ''h2'' [] [Inl ''Breaking news today!''],
          Tag ''h2'' [] [Inl ''Markets rally as inflation cools'']]
         (init (world net_timeout None)))
     = Inr [\<lparr>title = ''Markets rally as inflation cools'',
             url = ''https://markets.example.com/news'',
             source = ''Markets Daily'', timestamp = ''2024-05-01 12:00:00''\<rparr>]
   \<and> found (trace (snd (extract_all (world net_timeout None) src_markets 50
         [Tag ''h2'' [] [Inl ''  Markets rally   as inflation cools  ''],
          Tag ''h2'' [] [Inl ''Breaking news today!''],
          Tag ''h2'' [] [Inl ''Markets rally as inflation cools'']]
         (init (world net_timeout None)))))
     = [\<lparr>title = ''Markets rally as inflation cools'',
         url = ''https://markets.example.com/news'',
         source = ''Markets Daily'', timestamp = ''2024-05-01 12:00:00''\<rparr>]"
proof -
  let ?w = "world net_timeout None"
  let ?els = "[Tag ''h2'' [] [Inl ''  Markets rally   as inflation cools  ''],
          Tag ''h2'' [] [Inl ''Breaking news today!''],
          Tag ''h2'' [] [Inl ''Markets rally as inflation cools'']]"
  let ?h = "\<lparr>title = ''Markets rally as inflation cools'',
             url = ''https://markets.example.com/news'',
             source = ''Markets Daily'', timestamp = ''2024-05-01 12:00:00''\<rparr>"
  have t0: "trace (init ?w) = []" by (simp add: init_def world_def)
  have a: "fst (extract_all ?w src_markets 50 ?els (init ?w)) = Inr [?h]"
    by (simp add: plumbing computed)
  then have "extract_all ?w src_markets 50 ?els (init ?w)
               = (Inr [?h], snd (extract_all ?w src_markets 50 ?els (init ?w)))"
    by (metis prod.collapse)
  with titles_are_distinct [where w = ?w and src = src_markets and mh = 50 and elements = ?els
         and st = "init ?w" and r = "Inr [?h]"
         and st' = "snd (extract_all ?w src_markets 50 ?els (init ?w))"]
  have "[?h] = found (trace (snd (extract_all ?w src_markets 50 ?els (init ?w))))"
    by (simp add: t0)
  with a show ?thesis by simp
qed

text \<open>
  C9. The claim says that two passes over the same elements give identical records. Every
  record carries \<open>datetime.now()\<close>, read when the record is built, so two passes made
  at different times differ in their timestamps.
\<close>

theorem rerun_counterexample:
  "fst (extract_all (world net_timeout None) src_markets 50
          [Tag ''h2'' [] [Inl ''Markets rally as inflation cools'']]
          (init (world net_timeout None)))
     = Inr [\<lparr>title = ''Markets rally as inflation cools'',
             url = ''https://markets.example.com/news'',
             source = ''Markets Daily'', timestamp = ''2024-05-01 12:00:00''\<rparr>]
   \<and> fst (extract_all ((world net_timeout None)\<lparr>now := clock_next_day\<rparr>) src_markets 50
          [Tag ''h2'' [] [Inl ''Markets rally as inflation cools'']]
          (init ((world net_timeout None)\<lparr>now := clock_next_day\<rparr>)))
     = Inr [\<lparr>title = ''Markets rally as inflation cools'',
             url = ''https://markets.example.com/news'',
             source = ''Markets Daily'', timestamp = ''2024-05-02 09:30:00''\<rparr>]"
  by (simp add: plumbing computed clock_next_day_def)

text \<open>
  C9, as the code has it: two passes over the same elements, for the same source and
  maximum, each from an empty set of seen titles, give the same outcome up to timestamps:
  both raise the same exception, or both return the same titles, urls and source names in
  the same order, whatever the states of the two runs. When the clock readings of the two
  passes agree, the records are identical.
\<close>

theorem rerun_is_identical_up_to_timestamps:
  "(urljoin w1 = urljoin w2 \<longrightarrow>
      map_sum id (map untimed) (fst (extract_all w1 src mh elements st1))
        = map_sum id (map untimed) (fst (extract_all w2 src mh elements st2)))
   \<and> (urljoin w1 = urljoin w2
        \<and> (\<forall>k. now w1 (clock_reads st1 + k) = now w2 (clock_reads st2 + k)) \<longrightarrow>
      fst (extract_all w1 src mh elements st1) = fst (extract_all w2 src mh elements st2))"
  unfolding extract_all_def
  by (intro conjI impI extract_loop_untimed extract_loop_same_clock) simp_all


theorem rerun_is_identical_up_to_timestamps_witness:
  "urljoin (world net_timeout None) = urljoin ((world net_timeout None)\<lparr>now := clock_next_day\<rparr>)
   \<and> map_sum id (map untimed)
        (fst (extract_all ((world net_timeout None)\<lparr>now := clock_next_day\<rparr>) src_markets 50
               [Tag ''h2'' [] [Inl ''Markets rally as inflation cools'']]
               (init ((world net_timeout None)\<lparr>now := clock_next_day\<rparr>))))
       = Inr [(''Markets rally as inflation cools'', ''https://markets.example.com/news'',
               ''Markets Daily'')]
   \<and> (\<forall>k. now (world net_timeout None) (clock_reads (init (world net_timeout None)) + k)
            = now (world net_down None) (clock_reads (init (world net_down None)) + k))
   \<and> fst (extract_all (world net_down None) src_markets 50
             [Tag ''h2'' [] [Inl ''Markets rally as inflation cools'']]
             (init (world net_down None)))
       = Inr [\<lparr>title = ''Markets rally as inflation cools'',
               url = ''https://markets.example.com/news'',
               source = ''Markets Daily'', timestamp = ''2024-05-01 12:00:00''\<rparr>]"
proof -
  let ?w1 = "world net_timeout None"
  let ?w2 = "(world net_timeout None)\<lparr>now := clock_next_day\<rparr>"
  let ?w3 = "world net_down None"
  let ?els = "[Tag ''h2'' [] [Inl ''Markets rally as inflation cools'']]"
  have u: "urljoin ?w1 = urljoin ?w2" and u3: "urljoin ?w1 = urljoin ?w3"
    by (simp_all add: world_def)
  have c: "\<forall>k. now ?w1 (clock_reads (init ?w1) + k) = now ?w3 (clock_reads (init ?w3) + k)"
    by (simp add: world_def init_def)
  have a: "fst (extract_all ?w1 src_markets 50 ?els (init ?w1))
       = Inr [\<lparr>title = ''Markets rally as inflation cools'',
               url = ''https://markets.example.com/news'',
               source = ''Markets Daily'', timestamp = ''2024-05-01 12:00:00''\<rparr>]"
    by (simp add: plumbing computed)
  have "map_sum id (map untimed) (fst (extract_all ?w1 src_markets 50 ?els (init ?w1)))
          = map_sum id (map untimed) (fst (extract_all ?w2 src_markets 50 ?els (init ?w2)))"
    by (rule mp [OF conjunct1 [OF rerun_is_identical_up_to_timestamps] u])
  then have b: "map_sum id (map untimed) (fst (extract_all ?w2 src_markets 50 ?els (init ?w2)))
             = Inr [(''Markets rally as inflation cools'', ''https://markets.example.com/news'',
               ''Markets Daily'')]"
    unfolding a by (simp add: untimed_def)
  have "fst (extract_all ?w1 src_markets 50 ?els (init ?w1))
          = fst (extract_all ?w3 src_markets 50 ?els (init ?w3))"
    by (rule mp [OF conjunct2 [OF rerun_is_identical_up_to_timestamps] conjI [OF u3 c]])
  then have d: "fst (extract_all ?w3 src_markets 50 ?els (init ?w3))
       = Inr [\<lparr>title = ''Markets rally as inflation cools'',
               url = ''https://markets.example.com/news'',
               source = ''Markets Daily'', timestamp = ''2024-05-01 12:00:00''\<rparr>]"
    unfolding a by (rule sym)
  show ?thesis by (intro conjI u b c d)
qed




text \<open>
  C8. The claim says that one session serves all the sources of a run. The session is
  created inside \<open>scrape_source\<close>, once per call: a run over two sources makes its two
  requests through two sessions.
\<close>

theorem session_per_run_counterexample:
  "map session_of (filter is_http_get (trace (run (world net_two None) [src_markets, src_storm] 50)))
     = [Some 0, Some 1]
   \<and> filter is_session_created (trace (run (world net_two None) [src_markets, src_storm] 50))
     = [Session_created 0, Session_created 1]"
  by (simp add: plumbing computed net_two_def)

text \<open>
  C8, as the code has it: every call of \<open>scrape_source\<close> starts by creating a session of
  its own, and creates no other; every request of that call, the retries included, goes
  through this session to the source's URL, with the header set whose \<open>Referer\<close> is the
  source's URL (\<open>https://www.google.com/\<close> when the URL is empty).
\<close>

theorem one_session_per_source:
  "scrape_source w mh src st = (r, st') \<longrightarrow>
     (\<exists>evs. trace st' = trace st @ Session_created (sessions_made st) # evs
        \<and> sessions_made st' = Suc (sessions_made st)
        \<and> (\<forall>e \<in> set evs. \<not> is_session_created e
              \<and> (is_http_get e \<longrightarrow>
                    session_of e = Some (sessions_made st)
                    \<and> url_of e = Some (news_source.url src)
                    \<and> header_of ''Referer'' e
                        = Some (if news_source.url src \<noteq> [] then news_source.url src
                                else ''https://www.google.com/''))))"
proof
  assume "scrape_source w mh src st = (r, st')"
  from scrape_source_trace [OF this] obtain fs hs where blk:
    "trace st' = trace st @ Session_created (sessions_made st) # fs @ map Headline_found hs"
    "list_all (fetch_event (sessions_made st) src) fs"
    "sessions_made st' = Suc (sessions_made st)"
    by blast
  have "\<not> is_session_created e
          \<and> (is_http_get e \<longrightarrow>
                session_of e = Some (sessions_made st)
                \<and> url_of e = Some (news_source.url src)
                \<and> header_of ''Referer'' e
                    = Some (if news_source.url src \<noteq> [] then news_source.url src
                            else ''https://www.google.com/''))"
    if "e \<in> set (fs @ map Headline_found hs)" for e
  proof (cases "e \<in> set fs")
    case True
    with blk(2) have "fetch_event (sessions_made st) src e" by (simp add: list_all_iff)
    from fetch_event_session [OF this] show ?thesis by (simp add: referer_def)
  next
    case False
    with that obtain h where "e = Headline_found h" by auto
    then show ?thesis by simp
  qed
  with blk(1,3) show "\<exists>evs. trace st' = trace st @ Session_created (sessions_made st) # evs
        \<and> sessions_made st' = Suc (sessions_made st)
        \<and> (\<forall>e \<in> set evs. \<not> is_session_created e
              \<and> (is_http_get e \<longrightarrow>
                    session_of e = Some (sessions_made st)
                    \<and> url_of e = Some (news_source.url src)
                    \<and> header_of ''Referer'' e
                        = Some (if news_source.url src \<noteq> [] then news_source.url src
                                else ''https://www.google.com/'')))"
    by (intro exI [of _ "fs @ map Headline_found hs"]) blast
qed

theorem one_session_per_source_witness:
  "map session_of (trace (snd (scrape_source (world net_retry None) 50 src_times
          (init (world net_retry None)))))
     = [Some 0, None, Some 0, None, Some 0, None, Some 0, None]
   \<and> map (header_of ''Referer'')
        (filter is_http_get (trace (snd (scrape_source (world net_retry None) 50 src_times
          (init (world net_retry None))))))
     = [Some ''https://timesofindia.indiatimes.com/'', Some ''https://timesofindia.indiatimes.com/'',
        Some ''https://timesofindia.indiatimes.com/'']
   \<and> sessions_made (snd (scrape_source (world net_retry None) 50 src_times
          (init (world net_retry None)))) = 1"
proof -
  let ?w = "world net_retry None"
  let ?r = "scrape_source ?w 50 src_times (init ?w)"
  have s0: "sessions_made (init ?w) = 0" by (simp add: init_def world_def)
  have a: "map session_of (trace (snd ?r))
     = [Some 0, None, Some 0, None, Some 0, None, Some 0, None]"
    by (simp add: plumbing computed net_retry_def range_3)
  have b: "map (header_of ''Referer'') (filter is_http_get (trace (snd ?r)))
     = [Some ''https://timesofindia.indiatimes.com/'', Some ''https://timesofindia.indiatimes.com/'',
        Some ''https://timesofindia.indiatimes.com/'']"
    by (simp add: plumbing computed net_retry_def range_3 default_headers_def)
  have "?r = (fst ?r, snd ?r)" by simp
  from mp [OF one_session_per_source this]
  have "sessions_made (snd ?r) = 1" by (auto simp: s0)
  with a b show ?thesis by (intro conjI)
qed

text \<open>
  C7. The claim says that the flag is also checked between the attempts of a fetch. The
  loop over the attempts never reads \<open>is_running\<close>: when \<open>stop()\<close> is called during
  the first request of a site that answers 403, the two other requests are still made.
\<close>

theorem cancel_between_attempts_counterexample:
  "stop_after (world net_forbidden (Some 3)) = Some 3
   \<and> filter is_http_get (take 3 (trace (run (world net_forbidden (Some 3)) [src_times] 50)))
       = [Http_get 0 ''https://timesofindia.indiatimes.com/'' (default_headers src_times) 15]
   \<and> length (filter is_http_get
        (drop 3 (trace (run (world net_forbidden (Some 3)) [src_times] 50)))) = 2"
  by (simp add: plumbing computed net_forbidden_def range_3)

text \<open>
  C7, as the code has it: the flag is read once per source, before its pipeline starts.
  When it is found cleared the loop ends with the aggregate as it is; so after a call of
  \<open>stop()\<close> no further pipeline starts (no session is created at or after the position
  of the call in the event stream), the source in progress runs to its end, and the run
  ends with the same terminal event as a run that was not cancelled.
\<close>

theorem cancellation_between_sources:
  "(\<not> is_running st \<longrightarrow> run_loop w mh n i srcs all st = (all, st))
   \<and> (stop_after w = Some k \<longrightarrow>
        (\<forall>j. k \<le> j \<and> j < length (trace (run w sources mh)) \<longrightarrow>
           \<not> is_session_created (trace (run w sources mh) ! j)))
   \<and> (\<exists>evs all'. trace (run w sources mh) = evs @ [Finished_scraping all'])"
proof (intro conjI impI allI)
  assume "\<not> is_running st"
  then show "run_loop w mh n i srcs all st = (all, st)" by (cases srcs) simp_all
next
  obtain all' st' where rl:
    "run_loop w mh (length sources) 0 sources [] (init w) = (all', st')"
    by (cases "run_loop w mh (length sources) 0 sources [] (init w)")
  have t0: "trace (init w) = []" by (simp add: init_def stop_def Let_def)
  have tr: "trace (run w sources mh) = trace st' @ [Finished_scraping all']"
    using rl by (simp add: run_def)
  then show "\<exists>evs all'. trace (run w sources mh) = evs @ [Finished_scraping all']" by blast
  fix j
  assume k: "stop_after w = Some k"
    and j: "k \<le> j \<and> j < length (trace (run w sources mh))"
  from run_loop_starts [OF consistent_init k rl] have sb: "starts_before k 0 (trace st')"
    by (auto simp: t0)
  show "\<not> is_session_created (trace (run w sources mh) ! j)"
  proof (cases "j < length (trace st')")
    case True
    with starts_before_nth [OF sb True] j show ?thesis
      by (auto simp: tr nth_append)
  next
    case False
    with j have "j = length (trace st')" by (simp add: tr)
    then show ?thesis by (simp add: tr)
  qed
qed

theorem cancellation_between_sources_witness:
  "stop_after (world net_timeout (Some 5)) = Some 5
   \<and> trace (run (world net_timeout (Some 5)) [src_markets, src_budget, src_storm] 50)
       = [Session_created 0,
          Http_get 0 ''https://markets.example.com/news'' (default_headers src_markets) 10,
          Headline_found
            \<lparr>title = ''Markets rally as inflation cools'',
              url = ''https://markets.example.com/news'',
              source = ''Markets Daily'', timestamp = ''2024-05-01 12:00:00''\<rparr>,
          Progress_update 33, Sleep 500,
          Finished_scraping
            [\<lparr>title = ''Markets rally as inflation cools'',
               url = ''https://markets.example.com/news'',
               source = ''Markets Daily'', timestamp = ''2024-05-01 12:00:00''\<rparr>]]
   \<and> \<not> is_session_created
         (trace (run (world net_timeout (Some 5)) [src_markets, src_budget, src_storm] 50) ! 5)
   \<and> \<not> is_running (stop (init (world net_timeout (Some 5))))
   \<and> run_loop (world net_timeout (Some 5)) 50 3 1 [src_budget, src_storm] []
        (stop (init (world net_timeout (Some 5))))
       = ([], stop (init (world net_timeout (Some 5))))"
proof -
  let ?w = "world net_timeout (Some 5)"
  let ?tr = "trace (run ?w [src_markets, src_budget, src_storm] 50)"
  have s: "stop_after ?w = Some 5" by (simp add: world_def)
  have t: "?tr
       = [Session_created 0,
          Http_get 0 ''https://markets.example.com/news'' (default_headers src_markets) 10,
          Headline_found
            \<lparr>title = ''Markets rally as inflation cools'',
              url = ''https://markets.example.com/news'',
              source = ''Markets Daily'', timestamp = ''2024-05-01 12:00:00''\<rparr>,
          Progress_update 33, Sleep 500,
          Finished_scraping
            [\<lparr>title = ''Markets rally as inflation cools'',
               url = ''https://markets.example.com/news'',
               source = ''Markets Daily'', timestamp = ''2024-05-01 12:00:00''\<rparr>]]"
    by (simp add: plumbing computed net_timeout_def)
  have l: "(5::nat) \<le> 5 \<and> 5 < length ?tr" unfolding t by simp
  have r: "\<not> is_running (stop (init ?w))" by (simp add: stop_def)
  note th = cancellation_between_sources
              [where w = ?w and k = 5 and sources = "[src_markets, src_budget, src_storm]"
                 and mh = 50 and st = "stop (init ?w)" and n = 3 and i = 1
                 and srcs = "[src_budget, src_storm]" and all = "[]"]
  from th r have a: "run_loop ?w 50 3 1 [src_budget, src_storm] [] (stop (init ?w))
                       = ([], stop (init ?w))"
    by blast
  from th s l have b: "\<not> is_session_created (?tr ! 5)" by blast
  show ?thesis by (intro conjI s t b r a)
qed

text \<open>
  C10. The claim says that the payload of the terminal event is the sequence of all records
  emitted one by one during the run. A source that fails after it has emitted records
  (here \<open>urljoin\<close> raises on the second element of the page) loses its local list: its
  records were announced, and are not in the payload.
\<close>

theorem payload_counterexample:
  "found (trace (run (world net_capitol None) [src_budget] 50))
     = [\<lparr>title = ''Lawmakers pass the annual budget bill'',
         url = ''https://capitol.example.com/'',
         source = ''Capitol Post'', timestamp = ''2024-05-01 12:00:00''\<rparr>]
   \<and> filter is_finished (trace (run (world net_capitol None) [src_budget] 50))
     = [Finished_scraping []]
   \<and> filter is_error (trace (run (world net_capitol None) [src_budget] 50))
     = [Error_occurred ''Error scraping Capitol Post: Failed to scrape Capitol Post: Invalid IPv6 URL'']"
  by (simp add: plumbing computed net_capitol_def found_def)

text \<open>
  C10, as the code has it: every run, cancelled or not, emits exactly one terminal event,
  as its last event. Its payload is \<open>kept\<close> of the events before it: the records emitted
  by the sources that ended with a progress event, in order. So the payload is a
  subsequence of the records emitted one by one, and it is all of them when the run has no
  error event.
\<close>

theorem terminal_event_payload:
  "\<exists>evs. trace (run w sources mh) = evs @ [Finished_scraping (kept evs)]
     \<and> (\<forall>e \<in> set evs. \<not> is_finished e)
     \<and> subseq (kept evs) (found evs)
     \<and> ((\<forall>e \<in> set evs. \<not> is_error e) \<longrightarrow> kept evs = found evs)"
proof -
  obtain all' st' where rl:
    "run_loop w mh (length sources) 0 sources [] (init w) = (all', st')"
    by (cases "run_loop w mh (length sources) 0 sources [] (init w)")
  from run_loop_shape [OF rl] obtain evs hs k where sh:
    "trace st' = trace (init w) @ evs" "all' = [] @ hs" "run_shape (length sources) 0 evs hs k"
    by blast
  have t0: "trace (init w) = []" by (simp add: init_def stop_def Let_def)
  have kp: "kept evs = hs"
    using run_shape_kept [OF sh(3), of "[]"] by (simp add: kept_def)
  have tr: "trace (run w sources mh) = evs @ [Finished_scraping (kept evs)]"
    using rl sh(1,2) t0 kp by (simp add: run_def)
  have nf: "\<forall>e \<in> set evs. \<not> is_finished e"
    using run_shape_not_finished [OF sh(3)] by (simp add: list_all_iff)
  from run_shape_found [OF sh(3)] have
    "subseq (kept evs) (found evs)"
    "(\<forall>e \<in> set evs. \<not> is_error e) \<longrightarrow> kept evs = found evs"
    unfolding kp by (simp_all add: list_all_iff)
  with tr nf show ?thesis by blast
qed


theorem terminal_event_payload_witness:
  "\<exists>evs. trace (run (world net_two None) [src_markets, src_storm] 50)
           = evs @ [Finished_scraping
                      [\<lparr>title = ''Markets rally as inflation cools'',
                         url = ''https://markets.example.com/news'',
                         source = ''Markets Daily'', timestamp = ''2024-05-01 12:00:00''\<rparr>,
                       \<lparr>title = ''Breaking: storm hits the northern coast!'',
                         url = ''https://example.com/world/story-1'',
                         source = ''Weather Wire'', timestamp = ''2024-05-01 12:00:01''\<rparr>]]
     \<and> (\<forall>e \<in> set evs. \<not> is_finished e)
     \<and> (\<forall>e \<in> set evs. \<not> is_error e)
     \<and> kept evs = found evs
     \<and> length (found evs) = 2"
proof -
  let ?w = "world net_two None"
  let ?h1 = "\<lparr>title = ''Markets rally as inflation cools'',
               url = ''https://markets.example.com/news'',
               source = ''Markets Daily'', timestamp = ''2024-05-01 12:00:00''\<rparr>"
  let ?h2 = "\<lparr>title = ''Breaking: storm hits the northern coast!'',
               url = ''https://example.com/world/story-1'',
               source = ''Weather Wire'', timestamp = ''2024-05-01 12:00:01''\<rparr>"
  let ?evs = "[Session_created 0,
          Http_get 0 ''https://markets.example.com/news'' (default_headers src_markets) 10,
          Headline_found ?h1, Progress_update 50, Sleep 500,
          Session_created 1,
          Http_get 1 ''https://example.com/news'' (default_headers src_storm) 10,
          Headline_found ?h2, Progress_update 100, Sleep 500]"
  have t: "trace (run ?w [src_markets, src_storm] 50) = ?evs @ [Finished_scraping [?h1, ?h2]]"
    by (simp add: plumbing computed net_two_def)
  from terminal_event_payload [of ?w "[src_markets, src_storm]" 50] obtain evs where e:
    "trace (run ?w [src_markets, src_storm] 50) = evs @ [Finished_scraping (kept evs)]"
    "\<forall>e \<in> set evs. \<not> is_finished e"
    "(\<forall>e \<in> set evs. \<not> is_error e) \<longrightarrow> kept evs = found evs"
    by blast
  from e(1) have evs: "evs = ?evs" and k: "kept evs = [?h1, ?h2]"
    unfolding t by simp_all
  have ne: "\<forall>e \<in> set evs. \<not> is_error e" unfolding evs by simp
  with e(3) have kf: "kept evs = found evs" by blast
  with k have "length (found evs) = 2" by simp
  with e(1,2) ne kf k show ?thesis by (intro exI [of _ evs]) simp
qed

end
